(* ===== verification/Prelude.thy ===== *)
theory Prelude
  imports Main "HOL-Library.Word"
begin

text \<open>
  Shared vocabulary of the development: the widths of Rust's integers, the
  functions of Rust's \<open>str\<close> that the sources call, decimal numbers, and the generic list
  lemmas the components use.

  A Rust \<open>str\<close> is a sequence of UTF-8 bytes; a HOL \<open>string\<close> is a list of 8-bit
  characters, so a \<open>str\<close> is modelled by its bytes and \<open>length\<close> is Rust's \<open>len()\<close>.
  Overflowing \<open>+\<close> and \<open>*\<close> on integers wrap, as in the release profile of
  \<open>Cargo.toml\<close> (which does not enable overflow checks).
\<close>

named_theorems str_simps \<open>unfolding rules of the str functions\<close>

type_synonym u8 = "8 word"
type_synonym u16 = "16 word"
type_synonym u32 = "32 word"
type_synonym u64 = "64 word"
type_synonym u128 = "128 word"
type_synonym usize = "64 word"

section \<open>Rust integers\<close>

definition saturating_add_u32 :: "u32 \<Rightarrow> u32 \<Rightarrow> u32" where
  "saturating_add_u32 a b = (if unat a + unat b < 2 ^ 32 then a + b else - 1)"

section \<open>Functions of str\<close>

fun strip_prefix :: "string \<Rightarrow> string \<Rightarrow> string option" where
  "strip_prefix [] s = Some s"
| "strip_prefix (p # ps) [] = None"
| "strip_prefix (p # ps) (c # cs) = (if p = c then strip_prefix ps cs else None)"

definition starts_with :: "string \<Rightarrow> string \<Rightarrow> bool" where
  "starts_with s p = (strip_prefix p s \<noteq> None)"

text \<open>\<open>s.split_once(c)\<close>: the text before and after the first \<open>c\<close>.\<close>

fun split_once :: "char \<Rightarrow> string \<Rightarrow> (string \<times> string) option" where
  "split_once c [] = None"
| "split_once c (x # xs) =
     (if x = c then Some ([], xs) else map_option (\<lambda>(a, b). (x # a, b)) (split_once c xs))"

text \<open>\<open>s.rsplit_once(c)\<close>: the text before and after the last \<open>c\<close>.\<close>

definition rsplit_once :: "char \<Rightarrow> string \<Rightarrow> (string \<times> string) option" where
  "rsplit_once c s = map_option (\<lambda>(a, b). (rev b, rev a)) (split_once c (rev s))"

text \<open>\<open>s.split(c)\<close>: the pieces between the occurrences of \<open>c\<close>; never an empty list.\<close>

fun split :: "char \<Rightarrow> string \<Rightarrow> string list" where
  "split c [] = [[]]"
| "split c (x # xs) =
     (if x = c then [] # split c xs
      else (case split c xs of [] \<Rightarrow> [[x]] | p # ps \<Rightarrow> (x # p) # ps))"

definition trim_end_matches :: "char \<Rightarrow> string \<Rightarrow> string" where
  "trim_end_matches c s = rev (dropWhile (\<lambda>x. x = c) (rev s))"

text \<open>
  \<open>ws_len s\<close> is the number of bytes of the white-space character \<open>s\<close> starts with, 0 if it
  starts with none. Rust's \<open>char::is_whitespace\<close> is the Unicode property White\_Space:
  U+0009--U+000D, U+0020, U+0085, U+00A0, U+1680, U+2000--U+200A, U+2028, U+2029, U+202F,
  U+205F and U+3000, here by their UTF-8 encodings.
\<close>

definition ascii_ws :: "char \<Rightarrow> bool" where
  "ascii_ws c = (c = CHR '' '' \<or> (9 \<le> (of_char c :: nat) \<and> (of_char c :: nat) \<le> 13))"

definition wide_ws :: "nat \<Rightarrow> nat \<Rightarrow> nat \<Rightarrow> bool" where
  "wide_ws a b c =
     ((a = 0xE1 \<and> b = 0x9A \<and> c = 0x80)
      \<or> (a = 0xE2 \<and> b = 0x80 \<and> ((0x80 \<le> c \<and> c \<le> 0x8A) \<or> c = 0xA8 \<or> c = 0xA9 \<or> c = 0xAF))
      \<or> (a = 0xE2 \<and> b = 0x81 \<and> c = 0x9F)
      \<or> (a = 0xE3 \<and> b = 0x80 \<and> c = 0x80))"

definition ws_len :: "string \<Rightarrow> nat" where
  "ws_len s =
     (case s of
        [] \<Rightarrow> 0
      | a # s1 \<Rightarrow>
          if ascii_ws a then 1
          else (case s1 of
                  [] \<Rightarrow> 0
                | b # s2 \<Rightarrow>
                    if (of_char a :: nat) = 0xC2 \<and> ((of_char b :: nat) = 0x85 \<or> (of_char b :: nat) = 0xA0)
                    then 2
                    else (case s2 of
                            [] \<Rightarrow> 0
                          | c # _ \<Rightarrow> if wide_ws (of_char a) (of_char b) (of_char c) then 3 else 0)))"

function trim_start :: "string \<Rightarrow> string" where
  "trim_start s = (if ws_len s = 0 \<or> s = [] then s else trim_start (drop (ws_len s) s))"
  by pat_completeness auto
termination
  by (relation "measure length") auto

fun trim_end :: "string \<Rightarrow> string" where
  "trim_end [] = []"
| "trim_end (c # cs) = (if trim_start (c # cs) = [] then [] else c # trim_end cs)"

definition trim :: "string \<Rightarrow> string" where
  "trim s = trim_end (trim_start s)"

text \<open>\<open>s.split_whitespace()\<close>: the maximal runs without white space; \<open>w\<close> is the run being read.\<close>

function split_ws :: "string \<Rightarrow> string \<Rightarrow> string list" where
  "split_ws w [] = (if w = [] then [] else [w])"
| "split_ws w (c # cs) =
     (if ws_len (c # cs) = 0 then split_ws (w @ [c]) cs
      else (if w = [] then [] else [w]) @ split_ws [] (drop (ws_len (c # cs)) (c # cs)))"
  by pat_completeness auto
termination
  by (relation "measure (\<lambda>(w, s). length s)") auto

definition split_whitespace :: "string \<Rightarrow> string list" where
  "split_whitespace s = split_ws [] s"

text \<open>The position of the first occurrence of a needle, and whether there is one.\<close>

fun find_sub :: "string \<Rightarrow> string \<Rightarrow> nat option" where
  "find_sub n [] = (if n = [] then Some 0 else None)"
| "find_sub n (c # cs) =
     (if starts_with (c # cs) n then Some 0 else map_option Suc (find_sub n cs))"

definition contains_sub :: "string \<Rightarrow> string \<Rightarrow> bool" where
  "contains_sub s n = (find_sub n s \<noteq> None)"

definition to_ascii_lowercase :: "string \<Rightarrow> string" where
  "to_ascii_lowercase s =
     map (\<lambda>c. if 65 \<le> (of_char c :: nat) \<and> (of_char c :: nat) \<le> 90 then char_of (of_char c + 32 :: nat) else c) s"

section \<open>Decimal and hexadecimal numbers\<close>

definition to_digit :: "nat \<Rightarrow> char \<Rightarrow> nat option" where
  "to_digit radix c =
     (let n = of_char c :: nat;
          d = (if 48 \<le> n \<and> n \<le> 57 then n - 48
               else if 97 \<le> n \<and> n \<le> 122 then n - 87
               else if 65 \<le> n \<and> n \<le> 90 then n - 55
               else radix)
      in if d < radix then Some d else None)"

fun digits_value :: "nat \<Rightarrow> nat \<Rightarrow> string \<Rightarrow> nat option" where
  "digits_value radix acc [] = Some acc"
| "digits_value radix acc (c # cs) =
     (case to_digit radix c of
        None \<Rightarrow> None
      | Some d \<Rightarrow> digits_value radix (acc * radix + d) cs)"

text \<open>
  \<open>str::parse\<close> at an unsigned type with largest value \<open>m\<close>: one leading plus sign is
  accepted, at least one digit is required, and a value above \<open>m\<close> is an error.
\<close>

definition parse_unsigned :: "nat \<Rightarrow> string \<Rightarrow> nat option" where
  "parse_unsigned m s =
     (let ds = (case s of CHR ''+'' # r \<Rightarrow> r | _ \<Rightarrow> s)
      in if ds = [] then None
         else (case digits_value 10 0 ds of
                 None \<Rightarrow> None
               | Some v \<Rightarrow> if v \<le> m then Some v else None))"

definition parse_u8 :: "string \<Rightarrow> u8 option" where
  "parse_u8 s = map_option of_nat (parse_unsigned 255 s)"

definition parse_u16 :: "string \<Rightarrow> u16 option" where
  "parse_u16 s = map_option of_nat (parse_unsigned 65535 s)"

text \<open>\<open>Display\<close> of an unsigned integer.\<close>

definition digit_char :: "nat \<Rightarrow> char" where
  "digit_char d = char_of (if d < 10 then 48 + d else 87 + d)"

fun show_nat :: "nat \<Rightarrow> string" where
  "show_nat n = (if n < 10 then [digit_char n] else show_nat (n div 10) @ [digit_char (n mod 10)])"

definition show_int :: "int \<Rightarrow> string" where
  "show_int n = (if n < 0 then CHR ''-'' # show_nat (nat (- n)) else show_nat (nat n))"

definition show_bool :: "bool \<Rightarrow> string" where
  "show_bool b = (if b then ''true'' else ''false'')"

definition is_digit :: "char \<Rightarrow> bool" where
  "is_digit c = (to_digit 10 c \<noteq> None)"

definition digits_nat :: "string \<Rightarrow> nat" where
  "digits_nat s = (case digits_value 10 0 s of Some n \<Rightarrow> n | None \<Rightarrow> 0)"

declare show_nat.simps [simp del] trim_start.simps [simp del] trim_end.simps(2) [simp del]

section \<open>Lemmas on str functions\<close>

lemma strip_prefix_Some [simp]: "strip_prefix p s = Some r \<longleftrightarrow> s = p @ r"
  by (induction p s rule: strip_prefix.induct) auto

lemma strip_prefix_append [simp]: "strip_prefix p (p @ r) = Some r"
  by simp

lemma starts_with_iff [str_simps]: "starts_with s p \<longleftrightarrow> (\<exists>r. s = p @ r)"
  unfolding starts_with_def by (metis not_None_eq strip_prefix_Some)

lemma starts_with_append [simp]: "starts_with (p @ r) p"
  by (auto simp: starts_with_iff)

lemma starts_with_length: "starts_with s p \<Longrightarrow> length p \<le> length s"
  by (auto simp: starts_with_iff)

lemma split_once_Some: "split_once c s = Some (a, b) \<longleftrightarrow> s = a @ c # b \<and> c \<notin> set a"
proof (induction s arbitrary: a)
  case (Cons x xs)
  then show ?case by (cases "x = c"; cases a) auto
qed simp

lemma split_once_None: "split_once c s = None \<longleftrightarrow> c \<notin> set s"
  by (induction s) auto

lemma split_once_append: "c \<notin> set a \<Longrightarrow> split_once c (a @ c # b) = Some (a, b)"
  by (simp add: split_once_Some)

lemma split_nonempty [simp]: "split c s \<noteq> []"
  by (induction s) (auto split: list.splits)

lemma split_no_sep: "c \<notin> set s \<Longrightarrow> split c s = [s]"
  by (induction s) auto

lemma split_append: "c \<notin> set a \<Longrightarrow> split c (a @ c # b) = a # split c b"
  by (induction a) auto

lemma split_append2: "split c (a @ c # b) = split c a @ split c b"
proof (induction a)
  case (Cons x a)
  then show ?case by (cases "split c a") (auto split: list.splits)
qed simp

text \<open>Joining the pieces with the separator gives the text back.\<close>

fun join :: "char \<Rightarrow> string list \<Rightarrow> string" where
  "join c [] = []"
| "join c [p] = p"
| "join c (p # ps) = p @ c # join c ps"

lemma join_split: "join c (split c s) = s"
proof (induction s)
  case (Cons x s)
  then show ?case
    by (cases "split c s"; cases "tl (split c s)") (auto split: list.splits)
qed simp

lemma join_append: "ps \<noteq> [] \<Longrightarrow> qs \<noteq> [] \<Longrightarrow> join c (ps @ qs) = join c ps @ c # join c qs"
proof (induction ps)
  case (Cons p ps)
  then show ?case by (cases ps; cases qs) auto
qed simp

lemma trim_end_matches_id: "s = [] \<or> last s \<noteq> c \<Longrightarrow> trim_end_matches c s = s"
  by (cases s rule: rev_cases) (auto simp: trim_end_matches_def)

lemma trim_end_matches_snoc [simp]: "trim_end_matches c (s @ [c]) = trim_end_matches c s"
  by (simp add: trim_end_matches_def)

section \<open>Lemmas on numbers\<close>

lemma unat_max_one_pos [simp]: "0 < unat (max w 1 :: 'a::len word)"
  by (metis le_zero_eq max.cobounded2 neq0_conv unat_1 word_le_nat_alt zero_neq_one)

lemma unat_add_one: "unat (w :: 'a::len word) + 1 < 2 ^ LENGTH('a) \<Longrightarrow> unat (w + 1) = unat w + 1"
  by (simp add: unat_word_ariths)

lemma unat_bound: "unat (w :: 'a::len word) < 2 ^ LENGTH('a)"
  by (rule unsigned_less)

lemma of_char_digit: "d < 10 \<Longrightarrow> of_char (digit_char d) = 48 + d"
  by (simp add: digit_char_def)

lemma to_digit_digit_char [simp]: "d < 10 \<Longrightarrow> to_digit 10 (digit_char d) = Some d"
  by (simp add: to_digit_def of_char_digit Let_def)

lemma digits_value_append:
  "digits_value r acc (xs @ ys) = Option.bind (digits_value r acc xs) (\<lambda>a. digits_value r a ys)"
  by (induction xs arbitrary: acc) (auto split: option.splits)

lemma show_nat_nonempty [simp]: "show_nat n \<noteq> []"
  by (subst show_nat.simps) simp

lemma show_nat_digits: "c \<in> set (show_nat n) \<Longrightarrow> \<exists>d < 10. c = digit_char d"
proof (induction n rule: show_nat.induct)
  case (1 n)
  show ?case
  proof (cases "n < 10")
    case True
    with "1.prems" show ?thesis by (auto simp: show_nat.simps [of n])
  next
    case False
    with "1.prems" consider "c \<in> set (show_nat (n div 10))" | "c = digit_char (n mod 10)"
      by (auto simp: show_nat.simps [of n])
    then show ?thesis
      by cases (use False "1.IH" in \<open>auto intro: exI [of _ "n mod 10"]\<close>)
  qed
qed

lemma digits_value_show_nat: "digits_value 10 0 (show_nat n) = Some n"
proof (induction n rule: show_nat.induct)
  case (1 n)
  then show ?case
    by (subst show_nat.simps) (auto simp: digits_value_append split: if_splits)
qed

lemma digit_char_eq_iff: "d < 10 \<Longrightarrow> digit_char d = c \<longleftrightarrow> (of_char c :: nat) = 48 + d"
  by (metis of_char_digit of_char_eq_iff)

text \<open>Parsing inverts printing for every value that fits the type.\<close>

lemma parse_unsigned_show_nat: "n \<le> m \<Longrightarrow> parse_unsigned m (show_nat n) = Some n"
proof -
  assume le: "n \<le> m"
  obtain c cs where cs: "show_nat n = c # cs"
    by (cases "show_nat n") auto
  then have "c \<noteq> CHR ''+''"
    using show_nat_digits [of c n] by (auto simp: digit_char_eq_iff)
  then have "(case show_nat n of CHR ''+'' # r \<Rightarrow> r | _ \<Rightarrow> show_nat n) = show_nat n"
    by (simp add: cs split: char.split bool.split)
  with le show ?thesis
    by (simp add: parse_unsigned_def digits_value_show_nat Let_def)
qed

lemma parse_unsigned_bound: "parse_unsigned m s = Some v \<Longrightarrow> v \<le> m"
  by (auto simp: parse_unsigned_def Let_def split: option.splits if_splits)

lemma parse_u16_show: "parse_u16 (show_nat (unat p)) = Some p"
proof -
  have "unat p \<le> 65535"
    using unat_bound [of p] by simp
  then show ?thesis by (simp add: parse_u16_def parse_unsigned_show_nat)
qed

lemma show_nat_no_ws: "c \<in> set (show_nat n) \<Longrightarrow> \<not> ascii_ws c"
  by (drule show_nat_digits) (auto simp: ascii_ws_def of_char_digit digit_char_eq_iff)

lemma is_digit_show_nat: "c \<in> set (show_nat n) \<Longrightarrow> is_digit c"
  by (drule show_nat_digits) (auto simp: is_digit_def)

lemma digits_nat_show_nat [simp]: "digits_nat (show_nat n) = n"
  by (simp add: digits_nat_def digits_value_show_nat)

lemma takeWhile_is_digit_show_nat:
  assumes "rest = [] \<or> \<not> is_digit (hd rest)"
  shows "takeWhile is_digit (show_nat n @ rest) = show_nat n" "dropWhile is_digit (show_nat n @ rest) = rest"
  using assms by (cases rest; simp add: takeWhile_append2 dropWhile_append2 is_digit_show_nat)+

lemma show_nat_leading: "hd (show_nat n) = CHR ''0'' \<longleftrightarrow> n = 0"
proof (induction n rule: show_nat.induct)
  case (1 n)
  show ?case
  proof (cases "n < 10")
    case True
    then show ?thesis by (subst show_nat.simps) (simp add: digit_char_eq_iff)
  next
    case False
    with 1 show ?thesis by (subst show_nat.simps) simp
  qed
qed

text \<open>Text of ASCII characters without white space; trimming leaves it alone.\<close>

definition plain :: "string \<Rightarrow> bool" where
  "plain s = (\<forall>c \<in> set s. (of_char c :: nat) < 128 \<and> \<not> ascii_ws c)"

lemma plain_simps [simp]:
  "plain []" "plain (a @ b) \<longleftrightarrow> plain a \<and> plain b"
  "plain (c # s) \<longleftrightarrow> (of_char c :: nat) < 128 \<and> \<not> ascii_ws c \<and> plain s"
  by (auto simp: plain_def)

lemma plain_show_nat [simp]: "plain (show_nat n)"
  unfolding plain_def using show_nat_no_ws show_nat_digits by (fastforce simp: of_char_digit)

lemma ws_len_plain: "(of_char c :: nat) < 128 \<Longrightarrow> \<not> ascii_ws c \<Longrightarrow> ws_len (c # s) = 0"
  by (auto simp: ws_len_def wide_ws_def split: list.splits)

lemma trim_start_plain: "plain s \<Longrightarrow> trim_start s = s"
  by (subst trim_start.simps) (cases s; simp add: ws_len_plain)

lemma trim_end_plain: "plain s \<Longrightarrow> trim_end s = s"
  by (induction s) (simp_all add: trim_end.simps(2) trim_start_plain)

lemma trim_plain: "plain s \<Longrightarrow> trim s = s"
  by (simp add: trim_def trim_start_plain trim_end_plain)

lemma trim_space_plain: "plain s \<Longrightarrow> trim (CHR '' '' # s) = s"
  by (simp add: trim_def trim_start.simps [of "CHR '' '' # s"] ws_len_def ascii_ws_def
      trim_start_plain trim_end_plain)

end
