(* ===== verification/Time.thy ===== *)
theory Time
  imports Prelude "HOL-Library.Log_Nat" Complex_Main
begin

text \<open>
  The parts of Rust's \<open>f64\<close>, \<open>Duration\<close> and \<open>Instant\<close> the sources use.

  A finite \<open>f64\<close> is the rational it denotes; \<open>round64\<close> rounds an exact rational to the
  nearest binary64 value, ties to even, with gradual underflow and overflow to infinity. The
  sign of zero is not represented: no expression of the sources depends on it. A
  \<open>Duration\<close> is its total number of nanoseconds and an \<open>Instant\<close> the number of
  nanoseconds since the clock's origin; both have the bounds of their Rust representation,
  and an operation that panics in Rust returns \<open>None\<close>.
\<close>

section \<open>binary64\<close>

datatype f64 = Fin rat | PInf | NInf | NaN

definition pow2 :: "int \<Rightarrow> rat" where
  "pow2 e = (if 0 \<le> e then 2 ^ nat e else 1 / 2 ^ nat (- e))"

definition round_half_even :: "rat \<Rightarrow> int" where
  "round_half_even x =
     (let f = \<lfloor>x\<rfloor>; d = x - of_int f
      in if d < 1 / 2 then f else if 1 / 2 < d then f + 1 else if even f then f else f + 1)"

text \<open>The exponent \<open>E\<close> with \<open>2 ^ E \<le> a < 2 ^ (E + 1)\<close>, for positive \<open>a\<close>.\<close>

definition exponent :: "rat \<Rightarrow> int" where
  "exponent a =
     (case quotient_of a of
        (p, q) \<Rightarrow> (let e = int (floorlog 2 (nat p)) - int (floorlog 2 (nat q))
                   in if pow2 e \<le> a then e else e - 1))"

definition round64 :: "rat \<Rightarrow> f64" where
  "round64 x =
     (if x = 0 then Fin 0
      else (let a = \<bar>x\<bar>;
                e = max (exponent a - 52) (- 1074);
                v = of_int (round_half_even (a / pow2 e)) * pow2 e
            in if 2 ^ 1024 \<le> v then (if x < 0 then NInf else PInf)
               else Fin (if x < 0 then - v else v)))"

fun f64_neg :: "f64 \<Rightarrow> f64" where
  "f64_neg (Fin a) = Fin (- a)"
| "f64_neg PInf = NInf"
| "f64_neg NInf = PInf"
| "f64_neg NaN = NaN"

fun f64_add :: "f64 \<Rightarrow> f64 \<Rightarrow> f64" where
  "f64_add (Fin a) (Fin b) = round64 (a + b)"
| "f64_add NaN _ = NaN"
| "f64_add _ NaN = NaN"
| "f64_add PInf NInf = NaN"
| "f64_add NInf PInf = NaN"
| "f64_add PInf _ = PInf"
| "f64_add _ PInf = PInf"
| "f64_add NInf _ = NInf"
| "f64_add _ NInf = NInf"

definition f64_sub :: "f64 \<Rightarrow> f64 \<Rightarrow> f64" where
  "f64_sub a b = f64_add a (f64_neg b)"

fun f64_mul :: "f64 \<Rightarrow> f64 \<Rightarrow> f64" where
  "f64_mul (Fin a) (Fin b) = round64 (a * b)"
| "f64_mul NaN _ = NaN"
| "f64_mul _ NaN = NaN"
| "f64_mul (Fin a) PInf = (if a = 0 then NaN else if 0 < a then PInf else NInf)"
| "f64_mul (Fin a) NInf = (if a = 0 then NaN else if 0 < a then NInf else PInf)"
| "f64_mul PInf (Fin a) = (if a = 0 then NaN else if 0 < a then PInf else NInf)"
| "f64_mul NInf (Fin a) = (if a = 0 then NaN else if 0 < a then NInf else PInf)"
| "f64_mul PInf PInf = PInf"
| "f64_mul NInf NInf = PInf"
| "f64_mul PInf NInf = NInf"
| "f64_mul NInf PInf = NInf"

text \<open>\<open>a <= b\<close>, false when an operand is not a number.\<close>

fun f64_le :: "f64 \<Rightarrow> f64 \<Rightarrow> bool" where
  "f64_le NaN _ = False"
| "f64_le _ NaN = False"
| "f64_le NInf _ = True"
| "f64_le _ PInf = True"
| "f64_le (Fin a) (Fin b) = (a \<le> b)"
| "f64_le _ _ = False"

text \<open>\<open>f64::max\<close> returns the other operand when one is not a number.\<close>

definition f64_max :: "f64 \<Rightarrow> f64 \<Rightarrow> f64" where
  "f64_max a b = (if a = NaN then b else if b = NaN then a else if f64_le a b then b else a)"

definition f64_of_u32 :: "u32 \<Rightarrow> f64" where
  "f64_of_u32 n = Fin (of_nat (unat n))"

section \<open>Duration and Instant\<close>

type_synonym duration = nat
type_synonym instant = nat

definition duration_max :: duration where
  "duration_max = 2 ^ 64 * 10 ^ 9 - 1"

definition instant_max :: instant where
  "instant_max = 2 ^ 63 * 10 ^ 9 - 1"

definition from_secs :: "u64 \<Rightarrow> duration" where
  "from_secs s = unat s * 10 ^ 9"

text \<open>\<open>Duration / u32\<close>: exact, rounded down to a nanosecond; a zero divisor panics.\<close>

definition duration_div :: "duration \<Rightarrow> u32 \<Rightarrow> duration option" where
  "duration_div d n = (if n = 0 then None else Some (d div unat n))"

definition as_secs_f64 :: "duration \<Rightarrow> f64" where
  "as_secs_f64 d =
     f64_add (round64 (of_nat (d div 10 ^ 9))) (round64 (of_nat (d mod 10 ^ 9) / 10 ^ 9))"

fun from_secs_f64 :: "f64 \<Rightarrow> duration option" where
  "from_secs_f64 (Fin x) =
     (if x < 0 \<or> 2 ^ 64 \<le> x then None
      else (let n = nat (round_half_even (x * 10 ^ 9)) in if n \<le> duration_max then Some n else None))"
| "from_secs_f64 _ = None"

definition mul_f64 :: "duration \<Rightarrow> f64 \<Rightarrow> duration option" where
  "mul_f64 d x = from_secs_f64 (f64_mul x (as_secs_f64 d))"

definition instant_add :: "instant \<Rightarrow> duration \<Rightarrow> instant option" where
  "instant_add t d = (if t + d \<le> instant_max then Some (t + d) else None)"

definition duration_saturating_mul :: "duration \<Rightarrow> u32 \<Rightarrow> duration" where
  "duration_saturating_mul d n = min (d * unat n) duration_max"

text \<open>\<open>now.duration_since(earlier)\<close> saturates to zero.\<close>

definition duration_since :: "instant \<Rightarrow> instant \<Rightarrow> duration" where
  "duration_since now earlier = now - earlier"

section \<open>Lemmas\<close>

lemma instant_add_Some: "instant_add t d = Some t' \<longleftrightarrow> t' = t + d \<and> t + d \<le> instant_max"
  by (auto simp: instant_add_def)

text \<open>Rounding is exact on the integers a double represents.\<close>

lemma round_half_even_int [simp]: "round_half_even (of_int k) = k"
  by (simp add: round_half_even_def)

lemma exponent_nat:
  assumes "0 < n" and "n < 2 ^ 53"
  shows "exponent (of_nat n) \<le> 52"
proof -
  have q: "quotient_of (of_nat n) = (int n, 1)"
    using quotient_of_int [of "int n"] by simp
  have "floorlog 2 n \<le> 53"
    using assms floorlog_le_iff [of 2 n 53] by simp
  moreover have "floorlog 2 1 = 1"
    by (simp add: floorlog_def)
  ultimately show ?thesis
    by (simp add: exponent_def q Let_def)
qed

lemma round64_small_nat:
  assumes "n < 2 ^ 53"
  shows "round64 (of_nat n) = Fin (of_nat n)"
proof (cases "n = 0")
  case False
  define e where "e = max (exponent (of_nat n) - 52) (- 1074)"
  have e: "e \<le> 0" using exponent_nat [of n] assms False by (auto simp: e_def)
  have div: "(of_nat n :: rat) / pow2 e = of_int (int n * 2 ^ nat (- e))"
    using e by (cases "e = 0") (simp_all add: pow2_def)
  have inv: "of_int (int n * 2 ^ nat (- e)) * pow2 e = (of_nat n :: rat)"
    using e by (cases "e = 0") (simp_all add: pow2_def)
  have "(of_nat n :: rat) < of_nat (2 ^ 53)" using assms by (simp only: of_nat_less_iff)
  also have "\<dots> \<le> 2 ^ 1024" by (simp add: power_increasing)
  finally show ?thesis
    using False unfolding round64_def Let_def
    by (simp add: e_def [symmetric] div inv del: of_int_mult)
qed (simp add: round64_def)

lemma mul_f64_bound: "mul_f64 d x = Some d' \<Longrightarrow> d' \<le> duration_max"
  unfolding mul_f64_def
  by (cases "f64_mul x (as_secs_f64 d)") (auto simp: Let_def split: if_splits)

end
