(* ===== verification/BodyLimit.thy ===== *)
theory BodyLimit
  imports Time
begin

text \<open>
  The streaming bodies of \<open>src/proxy/body_limit.rs\<close>. The \<open>Body\<close> trait of the \<open>http-body\<close> crate is a
  record of its methods, so that each \<open>impl Body for\<close> a wrapper is a function from the methods of the
  inner body to those of the wrapper. A poll takes the reading of the clock; \<open>None\<close> is a panic. The
  timer of \<open>tokio\<close> and \<open>collect\<close> of \<open>http-body-util\<close> are arguments.
\<close>

section \<open>Definitions\<close>

datatype 'a poll = Pending | Ready 'a

datatype frame = DataFrame string | TrailersFrame "(string \<times> string) list"

fun data_ref :: "frame \<Rightarrow> string option" where
  "data_ref (DataFrame d) = Some d"
| "data_ref (TrailersFrame _) = None"

type_synonym 'e frame_poll = "('e + frame) option poll"

record ('b, 'e) body_impl =
  poll_frame :: "instant \<Rightarrow> 'b \<Rightarrow> ('e frame_poll \<times> 'b) option"
  is_end_stream :: "'b \<Rightarrow> bool"
  size_hint :: "'b \<Rightarrow> nat \<times> nat option"

datatype body_limit_error = TooLarge | IdleTimeout | Other string

definition body_limit_error_display :: "body_limit_error \<Rightarrow> string" where
  "body_limit_error_display e =
     (case e of TooLarge \<Rightarrow> ''body too large'' | IdleTimeout \<Rightarrow> ''body idle timeout'' | Other s \<Rightarrow> s)"

subsection \<open>LimitedBody\<close>

record 'b limited_body =
  limited_inner :: 'b
  max_bytes :: usize
  seen :: usize

definition limited_new :: "'b \<Rightarrow> usize \<Rightarrow> 'b limited_body" where
  "limited_new b m = \<lparr>limited_inner = b, max_bytes = m, seen = 0\<rparr>"

definition limited_poll_frame ::
  "('b, 'e) body_impl \<Rightarrow> ('e \<Rightarrow> string) \<Rightarrow> instant \<Rightarrow> 'b limited_body
     \<Rightarrow> (body_limit_error frame_poll \<times> 'b limited_body) option" where
  "limited_poll_frame B display now b =
     (case poll_frame B now (limited_inner b) of
        None \<Rightarrow> None
      | Some (r, inner) \<Rightarrow>
          (let b = b\<lparr>limited_inner := inner\<rparr>
           in case r of
                Ready (Some (Inr frame)) \<Rightarrow>
                  (case data_ref frame of
                     Some d \<Rightarrow>
                       (let b = b\<lparr>seen := seen b + of_nat (length d)\<rparr>
                        in if seen b > max_bytes b then Some (Ready (Some (Inl TooLarge)), b)
                           else Some (Ready (Some (Inr frame)), b))
                   | None \<Rightarrow> Some (Ready (Some (Inr frame)), b))
              | Ready (Some (Inl e)) \<Rightarrow> Some (Ready (Some (Inl (Other (display e)))), b)
              | Ready None \<Rightarrow> Some (Ready None, b)
              | Pending \<Rightarrow> Some (Pending, b)))"

definition limited_impl ::
  "('b, 'e) body_impl \<Rightarrow> ('e \<Rightarrow> string) \<Rightarrow> ('b limited_body, body_limit_error) body_impl" where
  "limited_impl B display =
     \<lparr>poll_frame = limited_poll_frame B display,
      is_end_stream = (\<lambda>b. is_end_stream B (limited_inner b)),
      size_hint = (\<lambda>b. size_hint B (limited_inner b))\<rparr>"

subsection \<open>IdleBody\<close>

text \<open>The timer: the deadline \<open>sleep(d)\<close> gets, and whether a sleep polled at a time has completed.\<close>

record timer_lib =
  sleep_deadline :: "instant \<Rightarrow> duration \<Rightarrow> instant"
  sleep_elapsed :: "instant \<Rightarrow> instant \<Rightarrow> bool"

record 'b idle_body =
  idle_inner :: 'b
  delay :: instant
  idle :: duration

definition idle_new :: "timer_lib \<Rightarrow> instant \<Rightarrow> 'b \<Rightarrow> duration \<Rightarrow> 'b idle_body" where
  "idle_new T now b d =
     (let d = max d (50 * 10 ^ 6)
      in \<lparr>idle_inner = b, delay = sleep_deadline T now d, idle = d\<rparr>)"

definition reset_timer :: "instant \<Rightarrow> 'b idle_body \<Rightarrow> 'b idle_body option" where
  "reset_timer now b = map_option (\<lambda>t. b\<lparr>delay := t\<rparr>) (instant_add now (idle b))"

definition idle_poll_frame ::
  "timer_lib \<Rightarrow> ('b, body_limit_error) body_impl \<Rightarrow> instant \<Rightarrow> 'b idle_body
     \<Rightarrow> (body_limit_error frame_poll \<times> 'b idle_body) option" where
  "idle_poll_frame T B now b =
     (case poll_frame B now (idle_inner b) of
        None \<Rightarrow> None
      | Some (r, inner) \<Rightarrow>
          (let b = b\<lparr>idle_inner := inner\<rparr>
           in case r of
                Ready (Some (Inr frame)) \<Rightarrow>
                  (case reset_timer now b of
                     None \<Rightarrow> None
                   | Some b \<Rightarrow> Some (Ready (Some (Inr frame)), b))
              | Ready (Some (Inl e)) \<Rightarrow> Some (Ready (Some (Inl e)), b)
              | Ready None \<Rightarrow> Some (Ready None, b)
              | Pending \<Rightarrow>
                  if sleep_elapsed T now (delay b) then Some (Ready (Some (Inl IdleTimeout)), b)
                  else Some (Pending, b)))"

definition idle_impl ::
  "timer_lib \<Rightarrow> ('b, body_limit_error) body_impl \<Rightarrow> ('b idle_body, body_limit_error) body_impl" where
  "idle_impl T B =
     \<lparr>poll_frame = idle_poll_frame T B,
      is_end_stream = (\<lambda>b. is_end_stream B (idle_inner b)),
      size_hint = (\<lambda>b. size_hint B (idle_inner b))\<rparr>"

subsection \<open>MapErrBody\<close>

record 'b map_err_body =
  map_err_inner :: 'b

definition map_err_new :: "'b \<Rightarrow> 'b map_err_body" where
  "map_err_new b = \<lparr>map_err_inner = b\<rparr>"

definition map_err_poll_frame ::
  "('b, 'e) body_impl \<Rightarrow> ('e \<Rightarrow> string) \<Rightarrow> instant \<Rightarrow> 'b map_err_body
     \<Rightarrow> (body_limit_error frame_poll \<times> 'b map_err_body) option" where
  "map_err_poll_frame B display now b =
     (case poll_frame B now (map_err_inner b) of
        None \<Rightarrow> None
      | Some (r, inner) \<Rightarrow>
          Some (case r of
                  Ready (Some (Inr f)) \<Rightarrow> Ready (Some (Inr f))
                | Ready (Some (Inl e)) \<Rightarrow> Ready (Some (Inl (Other (display e))))
                | Ready None \<Rightarrow> Ready None
                | Pending \<Rightarrow> Pending,
                b\<lparr>map_err_inner := inner\<rparr>))"

definition map_err_impl ::
  "('b, 'e) body_impl \<Rightarrow> ('e \<Rightarrow> string) \<Rightarrow> ('b map_err_body, body_limit_error) body_impl" where
  "map_err_impl B display =
     \<lparr>poll_frame = map_err_poll_frame B display,
      is_end_stream = (\<lambda>b. is_end_stream B (map_err_inner b)),
      size_hint = (\<lambda>b. size_hint B (map_err_inner b))\<rparr>"

subsection \<open>The two compositions\<close>

type_synonym 'b collected_body = "'b map_err_body limited_body idle_body"

type_synonym 'b collector =
  "('b collected_body, body_limit_error) body_impl \<Rightarrow> 'b collected_body \<Rightarrow> (body_limit_error + string) option"

definition collect_limited ::
  "timer_lib \<Rightarrow> 'b collector \<Rightarrow> ('b, 'e) body_impl \<Rightarrow> ('e \<Rightarrow> string) \<Rightarrow> instant \<Rightarrow> 'b \<Rightarrow> usize \<Rightarrow> duration
     \<Rightarrow> (body_limit_error + string) option" where
  "collect_limited T coll B display now body m d =
     (let mapped = map_err_new body;
          limited = limited_new mapped m;
          idle_wrapped = idle_new T now limited d
      in coll (idle_impl T (limited_impl (map_err_impl B display) body_limit_error_display)) idle_wrapped)"

definition idle_wrap :: "timer_lib \<Rightarrow> instant \<Rightarrow> 'b \<Rightarrow> duration \<Rightarrow> 'b map_err_body idle_body" where
  "idle_wrap T now body d = idle_new T now (map_err_new body) d"

definition idle_wrap_impl ::
  "timer_lib \<Rightarrow> ('b, 'e) body_impl \<Rightarrow> ('e \<Rightarrow> string) \<Rightarrow> ('b map_err_body idle_body, body_limit_error) body_impl" where
  "idle_wrap_impl T B display = idle_impl T (map_err_impl B display)"

section \<open>The timer and the collector\<close>

text \<open>
  What \<open>tokio\<close> documents: \<open>sleep(d)\<close> ends \<open>d\<close> after its creation when that instant can be represented,
  and a sleep never completes before its deadline.
\<close>

locale timer =
  fixes T :: timer_lib
  assumes deadline_exact: "instant_add now d = Some t \<Longrightarrow> sleep_deadline T now d = t"
    and not_early: "sleep_elapsed T now t \<Longrightarrow> t \<le> now"

definition exact_timer :: timer_lib where
  "exact_timer = \<lparr>sleep_deadline = (\<lambda>now d. now + d), sleep_elapsed = (\<lambda>now t. t \<le> now)\<rparr>"

interpretation et: timer exact_timer
  by unfold_locales (simp_all add: exact_timer_def instant_add_Some)

text \<open>
  What \<open>collect\<close> documents: it polls the body, at the instants \<open>ts\<close> at which its task runs, until the
  body ends or fails, and returns the data of all frames in order; \<open>None\<close> if the task has not finished
  or has panicked.
\<close>

definition frame_data :: "frame \<Rightarrow> string" where
  "frame_data f = (case data_ref f of Some d \<Rightarrow> d | None \<Rightarrow> [])"

fun collect_run :: "('b, 'e) body_impl \<Rightarrow> instant list \<Rightarrow> string \<Rightarrow> 'b \<Rightarrow> ('e + string) option" where
  "collect_run B [] acc b = None"
| "collect_run B (t # ts) acc b =
     (case poll_frame B t b of
        None \<Rightarrow> None
      | Some (Pending, b') \<Rightarrow> collect_run B ts acc b'
      | Some (Ready None, b') \<Rightarrow> Some (Inr acc)
      | Some (Ready (Some (Inl e)), b') \<Rightarrow> Some (Inl e)
      | Some (Ready (Some (Inr f)), b') \<Rightarrow> collect_run B ts (acc @ frame_data f) b')"

definition collects :: "'b collector \<Rightarrow> instant list \<Rightarrow> bool" where
  "collects coll ts = (\<forall>B b. coll B b = collect_run B ts [] b)"

section \<open>The stack of wrappers as one loop\<close>

text \<open>
  The abstract reader of a request body: one loop over the polls of the client's body, with the
  bytes so far, the deadline of the idle timer and the limit.
\<close>

fun bounded_read ::
  "timer_lib \<Rightarrow> ('b, 'e) body_impl \<Rightarrow> ('e \<Rightarrow> string) \<Rightarrow> usize \<Rightarrow> duration
     \<Rightarrow> instant list \<Rightarrow> instant \<Rightarrow> string \<Rightarrow> 'b \<Rightarrow> (body_limit_error + string) option" where
  "bounded_read T B display m d [] deadline acc b = None"
| "bounded_read T B display m d (t # ts) deadline acc b =
     (case poll_frame B t b of
        None \<Rightarrow> None
      | Some (Pending, b') \<Rightarrow>
          if sleep_elapsed T t deadline then Some (Inl IdleTimeout)
          else bounded_read T B display m d ts deadline acc b'
      | Some (Ready None, b') \<Rightarrow> Some (Inr acc)
      | Some (Ready (Some (Inl e)), b') \<Rightarrow> Some (Inl (Other (display e)))
      | Some (Ready (Some (Inr f)), b') \<Rightarrow>
          if data_ref f \<noteq> None \<and> of_nat (length acc) + of_nat (length (frame_data f)) > m
          then Some (Inl TooLarge)
          else (case instant_add t d of
                  None \<Rightarrow> None
                | Some deadline' \<Rightarrow> bounded_read T B display m d ts deadline' (acc @ frame_data f) b'))"

lemma collect_stack:
  "collect_run (idle_impl T (limited_impl (map_err_impl B display) body_limit_error_display)) ts acc
     \<lparr>idle_inner = \<lparr>limited_inner = \<lparr>map_err_inner = b\<rparr>, max_bytes = m, seen = of_nat (length acc)\<rparr>,
      delay = deadline, idle = d\<rparr>
   = bounded_read T B display m d ts deadline acc b"
proof (induction ts arbitrary: acc b deadline)
  case (Cons t ts)
  show ?case
    by (auto simp: idle_impl_def idle_poll_frame_def limited_impl_def limited_poll_frame_def
        map_err_impl_def map_err_poll_frame_def reset_timer_def body_limit_error_display_def
        frame_data_def Let_def simp flip: Cons.IH
        split: option.splits poll.splits sum.splits)
qed simp

section \<open>What the client sent\<close>

text \<open>The results of the polls of the client's body, up to its end or its failure.\<close>

fun trace :: "('b, 'e) body_impl \<Rightarrow> instant list \<Rightarrow> 'b \<Rightarrow> (instant \<times> 'e frame_poll) list" where
  "trace B [] b = []"
| "trace B (t # ts) b =
     (case poll_frame B t b of
        None \<Rightarrow> []
      | Some (Ready None, b') \<Rightarrow> [(t, Ready None)]
      | Some (Ready (Some (Inl e)), b') \<Rightarrow> [(t, Ready (Some (Inl e)))]
      | Some (r, b') \<Rightarrow> (t, r) # trace B ts b')"

fun delivered :: "(instant \<times> 'e frame_poll) list \<Rightarrow> string" where
  "delivered [] = []"
| "delivered ((t, Ready (Some (Inr f))) # tr) = frame_data f @ delivered tr"
| "delivered ((t, _) # tr) = delivered tr"

text \<open>The time of the last frame, \<open>start\<close> if there was none.\<close>

fun last_activity :: "instant \<Rightarrow> (instant \<times> 'e frame_poll) list \<Rightarrow> instant" where
  "last_activity start [] = start"
| "last_activity start ((t, Ready (Some (Inr f))) # tr) = last_activity t tr"
| "last_activity start ((t, _) # tr) = last_activity start tr"

text \<open>The client never leaves the reader waiting for \<open>d\<close> or longer.\<close>

fun punctual :: "duration \<Rightarrow> instant \<Rightarrow> (instant \<times> 'e frame_poll) list \<Rightarrow> bool" where
  "punctual d start [] = True"
| "punctual d start ((t, Pending) # tr) = (t < start + d \<and> punctual d start tr)"
| "punctual d start ((t, Ready (Some (Inr f))) # tr) = (t + d \<le> instant_max \<and> punctual d t tr)"
| "punctual d start ((t, _) # tr) = punctual d start tr"

lemma over_limit:
  assumes "length acc + n < 2 ^ 64"
  shows "(of_nat (length acc) + of_nat n :: usize) > m \<longleftrightarrow> unat m < length acc + n"
proof -
  have "unat (of_nat (length acc + n) :: usize) = length acc + n"
    using assms by (simp only: unat_of_nat) simp
  then show ?thesis by (simp add: word_less_nat_alt)
qed

lemma bounded_read_result:
  assumes "bounded_read T B display m d ts deadline acc b = Some r"
    and "length (acc @ delivered (trace B ts b)) < 2 ^ 64" "length acc \<le> unat m"
  shows "case r of
           Inr bs \<Rightarrow> bs = acc @ delivered (trace B ts b) \<and> length bs \<le> unat m
         | Inl TooLarge \<Rightarrow> unat m < length (acc @ delivered (trace B ts b))
         | Inl IdleTimeout \<Rightarrow> True
         | Inl (Other s) \<Rightarrow> \<exists>t e. (t, Ready (Some (Inl e))) \<in> set (trace B ts b) \<and> s = display e"
  using assms
proof (induction ts arbitrary: acc b deadline)
  case (Cons t ts)
  obtain p b' where p: "poll_frame B t b = Some (p, b')"
    using Cons.prems(1) by (cases "poll_frame B t b") auto
  consider "p = Pending" | "p = Ready None" | e where "p = Ready (Some (Inl e))"
    | f where "p = Ready (Some (Inr f))"
    by (metis option.exhaust poll.exhaust sum.exhaust)
  then show ?case
  proof cases
    case 1
    with Cons.prems p Cons.IH [of deadline acc b'] show ?thesis
      by (auto split: if_splits sum.splits body_limit_error.splits)
  next
    case 4
    have len: "length acc + length (frame_data f) < 2 ^ 64"
      using Cons.prems(2) p 4 by simp
    show ?thesis
    proof (cases "data_ref f \<noteq> None \<and> unat m < length acc + length (frame_data f)")
      case True
      then have "bounded_read T B display m d (t # ts) deadline acc b = Some (Inl TooLarge)"
        using over_limit [OF len, of m] by (simp add: p 4)
      with Cons.prems(1) have "r = Inl TooLarge" by simp
      with True show ?thesis by (simp add: p 4)
    next
      case False
      then have le: "length (acc @ frame_data f) \<le> unat m"
        using Cons.prems(3) by (cases f) (auto simp: frame_data_def)
      obtain t' where t': "instant_add t d = Some t'"
        "bounded_read T B display m d ts t' (acc @ frame_data f) b' = Some r"
        using Cons.prems p 4 False over_limit [OF len, of m] by (auto split: if_splits option.splits)
      show ?thesis
        using Cons.IH [OF t'(2) _ le] Cons.prems(2) p 4
        by (auto split: sum.splits body_limit_error.splits)
    qed
  qed (use Cons.prems p in auto)
qed simp

context timer
begin

lemma bounded_read_idle:
  assumes "bounded_read T B display m d ts (start + d) acc b = Some (Inl IdleTimeout)"
  shows "\<exists>pre t post. trace B ts b = pre @ (t, Pending) # post \<and> last_activity start pre + d \<le> t"
  using assms
proof (induction ts arbitrary: acc b start)
  case (Cons t ts)
  obtain p b' where p: "poll_frame B t b = Some (p, b')"
    using Cons.prems by (cases "poll_frame B t b") auto
  consider "p = Pending" | "p = Ready None" | e where "p = Ready (Some (Inl e))"
    | f where "p = Ready (Some (Inr f))"
    by (metis option.exhaust poll.exhaust sum.exhaust)
  then show ?case
  proof cases
    case 1
    show ?thesis
    proof (cases "sleep_elapsed T t (start + d)")
      case True
      with p 1 not_early [OF True] show ?thesis
        by (intro exI [of _ "[]"]) auto
    next
      case False
      then obtain pre t' post where "trace B ts b' = pre @ (t', Pending) # post" "last_activity start pre + d \<le> t'"
        using Cons.IH [of start acc b'] Cons.prems p 1 by auto
      with p 1 show ?thesis
        by (intro exI [of _ "(t, Pending) # pre"]) auto
    qed
  next
    case 4
    then have "bounded_read T B display m d ts (t + d) (acc @ frame_data f) b' = Some (Inl IdleTimeout)"
      using Cons.prems p by (auto simp: instant_add_def split: if_splits)
    from Cons.IH [OF this] obtain pre t' post
      where "trace B ts b' = pre @ (t', Pending) # post" "last_activity t pre + d \<le> t'"
      by blast
    with p 4 show ?thesis
      by (intro exI [of _ "(t, Ready (Some (Inr f))) # pre"]) auto
  qed (use Cons.prems p in auto)
qed simp

lemma bounded_read_accepts:
  assumes "punctual d start (trace B ts b)" "trace B ts b \<noteq> []" "snd (last (trace B ts b)) = Ready None"
    and "length (acc @ delivered (trace B ts b)) \<le> unat m"
  shows "bounded_read T B display m d ts (start + d) acc b = Some (Inr (acc @ delivered (trace B ts b)))"
  using assms
proof (induction ts arbitrary: acc b start)
  case (Cons t ts)
  obtain p b' where p: "poll_frame B t b = Some (p, b')"
    using Cons.prems(2) by (cases "poll_frame B t b") auto
  have b64: "unat m < 2 ^ 64" using unat_bound [of m] by simp
  consider "p = Pending" | "p = Ready None" | e where "p = Ready (Some (Inl e))"
    | f where "p = Ready (Some (Inr f))"
    by (metis option.exhaust poll.exhaust sum.exhaust)
  then show ?case
  proof cases
    case 1
    then have "\<not> sleep_elapsed T t (start + d)"
      using Cons.prems(1) p not_early [of t "start + d"] by auto
    with Cons.IH [of start b' acc] Cons.prems p 1 show ?thesis by (auto split: if_splits)
  next
    case 4
    have len: "length acc + length (frame_data f) < 2 ^ 64"
      and le: "length acc + length (frame_data f) \<le> unat m"
      using Cons.prems(4) p 4 b64 by auto
    then have "bounded_read T B display m d (t # ts) (start + d) acc b
               = bounded_read T B display m d ts (t + d) (acc @ frame_data f) b'"
      using Cons.prems(1) p 4 over_limit [OF len, of m] by (simp add: instant_add_def)
    with Cons.IH [of t b' "acc @ frame_data f"] Cons.prems p 4 show ?thesis
      by (auto split: if_splits)
  qed (use Cons.prems p in auto)
qed simp

end

lemma collect_limited_eq:
  assumes "collects coll ts" "timer T" "now + max d (50 * 10 ^ 6) \<le> instant_max"
  shows "collect_limited T coll B display now body m d
         = bounded_read T B display m (max d (50 * 10 ^ 6)) ts (now + max d (50 * 10 ^ 6)) [] body"
  using assms(1,3) timer.deadline_exact [OF assms(2), of now "max d (50 * 10 ^ 6)"]
    collect_stack [of T B display ts "[]" body m "now + max d (50 * 10 ^ 6)" "max d (50 * 10 ^ 6)"]
  by (simp add: collect_limited_def collects_def map_err_new_def limited_new_def idle_new_def Let_def
      instant_add_def)

section \<open>Properties\<close>

text \<open>C13. Reading a request body is bounded in size and in silence. Whenever \<open>collect_limited\<close>
  finishes: a body is returned only if it is every byte the client sent and no longer than the limit;
  "too large" is reported only if the client sent more than the limit; "idle timeout" only at a poll
  that found nothing although the idle time (50 ms at least) had passed since the last frame, or since
  the start; and any other error is the client's own, with its message.\<close>

theorem collect_limited_sound:
  assumes "collects coll ts" "timer T" "now + max d (50 * 10 ^ 6) \<le> instant_max"
    and "length (delivered (trace B ts body)) < 2 ^ 64"
    and "collect_limited T coll B display now body m d = Some r"
  shows "case r of
           Inr bs \<Rightarrow> bs = delivered (trace B ts body) \<and> length bs \<le> unat m
         | Inl TooLarge \<Rightarrow> unat m < length (delivered (trace B ts body))
         | Inl IdleTimeout \<Rightarrow>
             (\<exists>pre t post. trace B ts body = pre @ (t, Pending) # post
                \<and> last_activity now pre + max d (50 * 10 ^ 6) \<le> t)
         | Inl (Other s) \<Rightarrow> (\<exists>t e. (t, Ready (Some (Inl e))) \<in> set (trace B ts body) \<and> s = display e)"
proof -
  note run = assms(5) [unfolded collect_limited_eq [OF assms(1-3)]]
  show ?thesis
  proof (cases "r = Inl IdleTimeout")
    case True
    with timer.bounded_read_idle [OF assms(2)] run show ?thesis by simp
  next
    case False
    with bounded_read_result [OF run] assms(4) show ?thesis
      by (auto split: sum.splits body_limit_error.splits)
  qed
qed

text \<open>C40. A well-behaved client is served: when its body ends, holds at most the limit and never
  keeps the reader waiting for the idle time, \<open>collect_limited\<close> finishes and returns exactly its
  bytes.\<close>

theorem collect_limited_accepts:
  assumes "collects coll ts" "timer T" "now + max d (50 * 10 ^ 6) \<le> instant_max"
    and "punctual (max d (50 * 10 ^ 6)) now (trace B ts body)"
    and "trace B ts body \<noteq> []" "snd (last (trace B ts body)) = Ready None"
    and "length (delivered (trace B ts body)) \<le> unat m"
  shows "collect_limited T coll B display now body m d = Some (Inr (delivered (trace B ts body)))"
  using timer.bounded_read_accepts [OF assms(2,4-6), of "[]" m display] assms(7)
  by (simp add: collect_limited_eq [OF assms(1-3)])

text \<open>A client that sends two bytes in one frame, pauses and ends.\<close>

definition script_impl :: "(string frame_poll list, string) body_impl" where
  "script_impl =
     \<lparr>poll_frame = (\<lambda>_ s. case s of [] \<Rightarrow> Some (Pending, []) | p # ps \<Rightarrow> Some (p, ps)),
      is_end_stream = (\<lambda>s. s = []), size_hint = (\<lambda>_. (0, None))\<rparr>"

definition script_example :: "string frame_poll list" where
  "script_example = [Ready (Some (Inr (DataFrame ''ab''))), Pending, Ready None]"

lemma trace_example:
  "trace script_impl [2, 3, 4] script_example
   = [(2, Ready (Some (Inr (DataFrame ''ab'')))), (3, Pending), (4, Ready None)]"
  by (simp add: script_impl_def script_example_def)

lemma instant_max_example: "now \<le> 10 \<Longrightarrow> now + max 0 (50 * 10 ^ 6) \<le> instant_max"
  by (simp add: instant_max_def)

theorem collect_limited_sound_witness:
  "collect_limited exact_timer (\<lambda>B. collect_run B [2, 3, 4] []) script_impl id 0 script_example 1 0
     = Some (Inl TooLarge)
   \<and> unat (1 :: usize) < length (delivered (trace script_impl [2, 3, 4] script_example))"
proof -
  have c: "collects (\<lambda>B. collect_run B [2, 3, 4] []) [2, 3, 4]"
    by (simp add: collects_def)
  have r: "collect_limited exact_timer (\<lambda>B. collect_run B [2, 3, 4] []) script_impl id 0 script_example 1 0
     = Some (Inl TooLarge)"
    by (subst collect_limited_eq [OF c et.timer_axioms instant_max_example])
      (simp_all add: script_impl_def script_example_def frame_data_def)
  show ?thesis
    using collect_limited_sound [OF c et.timer_axioms instant_max_example _ r]
    by (simp add: r trace_example frame_data_def del: trace.simps)
qed

theorem collect_limited_accepts_witness:
  "collect_limited exact_timer (\<lambda>B. collect_run B [2, 3, 4] []) script_impl id 0 script_example 5 0
     = Some (Inr ''ab'')"
proof -
  have c: "collects (\<lambda>B. collect_run B [2, 3, 4] []) [2, 3, 4]"
    by (simp add: collects_def)
  show ?thesis
    using collect_limited_accepts [OF c et.timer_axioms instant_max_example, of 0 script_impl script_example 5 id]
    by (simp add: trace_example frame_data_def instant_max_def del: trace.simps)
qed

end
