(* ===== verification/Metrics.thy ===== *)
theory Metrics
  imports Time
begin

text \<open>
  The metrics of \<open>src/metrics/mod.rs\<close>: what the collectors of the \<open>prometheus\<close> crate hold, by label
  values. Counters are 64-bit and gauges signed 64-bit words, both wrap; a histogram is the sequence of its
  observations. The registry and the text encoder belong to the crate. The gauge \<open>upstream_health\<close> is a
  field of the health checker's state and the gauge \<open>active_connections\<close> one of the server's, the only
  components that touch them.
\<close>

record metrics =
  requests_total :: "string \<times> string \<times> string \<Rightarrow> u64"
  request_duration :: "string \<Rightarrow> f64 list"
  upstream_connections :: "string \<Rightarrow> 64 word"
  rate_limit_rejects :: u64
  rate_limit_allows :: u64
  retries_total :: u64

definition metrics_new :: metrics where
  "metrics_new =
     \<lparr>requests_total = (\<lambda>_. 0), request_duration = (\<lambda>_. []), upstream_connections = (\<lambda>_. 0),
      rate_limit_rejects = 0, rate_limit_allows = 0, retries_total = 0\<rparr>"

text \<open>
  The collectors \<open>Metrics::new\<close> creates, in the order in which it registers them, and the buckets of the
  histogram. Registration can fail, which is an error of \<open>new\<close>.
\<close>

record metric_desc =
  desc_name :: string
  desc_help :: string
  desc_labels :: "string list"

definition metric_descs :: "metric_desc list" where
  "metric_descs =
     [\<lparr>desc_name = ''oxigate_requests_total'', desc_help = ''Total number of requests processed'',
       desc_labels = [''method'', ''status'', ''upstream'']\<rparr>,
      \<lparr>desc_name = ''oxigate_request_duration_seconds'', desc_help = ''Request duration in seconds'',
       desc_labels = [''upstream'']\<rparr>,
      \<lparr>desc_name = ''oxigate_upstream_connections'',
       desc_help = ''Current number of active connections to upstream'', desc_labels = [''upstream'']\<rparr>,
      \<lparr>desc_name = ''oxigate_upstream_health'',
       desc_help = ''Upstream health status (1=healthy, 0=unhealthy)'', desc_labels = [''upstream'']\<rparr>,
      \<lparr>desc_name = ''oxigate_rate_limit_rejects_total'', desc_help = ''Requests rejected by rate limiter'',
       desc_labels = []\<rparr>,
      \<lparr>desc_name = ''oxigate_rate_limit_allows_total'', desc_help = ''Requests allowed by rate limiter'',
       desc_labels = []\<rparr>,
      \<lparr>desc_name = ''oxigate_active_connections'', desc_help = ''Currently accepted client connections'',
       desc_labels = []\<rparr>,
      \<lparr>desc_name = ''oxigate_retries_total'', desc_help = ''Upstream retry attempts'', desc_labels = []\<rparr>]"

definition duration_buckets :: "f64 list" where
  "duration_buckets =
     map round64 [1 / 1000, 5 / 1000, 1 / 100, 25 / 1000, 5 / 100, 1 / 10, 25 / 100, 5 / 10, 1, 25 / 10, 5, 10]"

fun register_all :: "(metric_desc \<Rightarrow> 'r \<Rightarrow> 'r option) \<Rightarrow> metric_desc list \<Rightarrow> 'r \<Rightarrow> 'r option" where
  "register_all register [] r = Some r"
| "register_all register (d # ds) r =
     (case register d r of None \<Rightarrow> None | Some r' \<Rightarrow> register_all register ds r')"

definition metrics_create :: "(metric_desc \<Rightarrow> 'r \<Rightarrow> 'r option) \<Rightarrow> 'r \<Rightarrow> (metrics \<times> 'r) option" where
  "metrics_create register registry = map_option (\<lambda>r. (metrics_new, r)) (register_all register metric_descs registry)"

text \<open>\<open>requests_total.with_label_values(&[method, status, upstream]).inc()\<close> and the other updates.\<close>

definition count_request :: "string \<Rightarrow> string \<Rightarrow> string \<Rightarrow> metrics \<Rightarrow> metrics" where
  "count_request method status upstream m =
     m\<lparr>requests_total := (requests_total m)((method, status, upstream) := requests_total m (method, status, upstream) + 1)\<rparr>"

definition observe_duration :: "string \<Rightarrow> f64 \<Rightarrow> metrics \<Rightarrow> metrics" where
  "observe_duration upstream d m =
     m\<lparr>request_duration := (request_duration m)(upstream := request_duration m upstream @ [d])\<rparr>"

definition gauge_add :: "string \<Rightarrow> 64 word \<Rightarrow> metrics \<Rightarrow> metrics" where
  "gauge_add upstream d m =
     m\<lparr>upstream_connections := (upstream_connections m)(upstream := upstream_connections m upstream + d)\<rparr>"

text \<open>
  A registry refuses a name that it already has. The names are distinct, so \<open>Metrics::new\<close> succeeds on a
  fresh one, and the \<open>expect\<close> of \<open>Metrics::default\<close> never panics.
\<close>

definition register_name :: "metric_desc \<Rightarrow> string set \<Rightarrow> string set option" where
  "register_name d names = (if desc_name d \<in> names then None else Some (insert (desc_name d) names))"

lemma register_all_distinct:
  "distinct (map desc_name ds) \<Longrightarrow> desc_name ` set ds \<inter> names = {} \<Longrightarrow>
     register_all register_name ds names = Some (names \<union> desc_name ` set ds)"
  by (induction ds arbitrary: names) (auto simp: register_name_def)

lemma metrics_create_succeeds: "\<exists>r. metrics_create register_name {} = Some (metrics_new, r)"
proof -
  have "distinct (map desc_name metric_descs)" by (simp add: metric_descs_def)
  then show ?thesis by (simp add: metrics_create_def register_all_distinct)
qed

lemma requests_total_updates [simp]:
  "requests_total (observe_duration u d m) = requests_total m"
  "requests_total (gauge_add u g m) = requests_total m"
  "requests_total (m\<lparr>rate_limit_rejects := a\<rparr>) = requests_total m"
  "requests_total (m\<lparr>rate_limit_allows := a\<rparr>) = requests_total m"
  "requests_total (m\<lparr>retries_total := a\<rparr>) = requests_total m"
  by (simp_all add: observe_duration_def gauge_add_def)

lemma upstream_connections_updates [simp]:
  "upstream_connections (observe_duration u d m) = upstream_connections m"
  "upstream_connections (count_request x y z m) = upstream_connections m"
  by (simp_all add: observe_duration_def count_request_def)

end
