(* ===== verification/Net.thy ===== *)
theory Net
  imports Prelude "HOL-Library.Monad_Syntax"
begin

text \<open>
  The parts of \<open>std::net\<close> the sources use: \<open>IpAddr\<close> and \<open>SocketAddr\<close>, the textual
  parser behind \<open>str::parse::<IpAddr>()\<close> and the \<open>Display\<close> of an address. An IPv4
  address is its 32-bit big-endian value, an IPv6 address its 128-bit value, which are the
  values \<open>u32::from\<close> and \<open>u128::from\<close> return.
\<close>

datatype ip_addr = V4 u32 | V6 u128

record socket_addr =
  sa_ip :: ip_addr
  sa_port :: u16

fun is_ipv4 :: "ip_addr \<Rightarrow> bool" where
  "is_ipv4 (V4 _) = True"
| "is_ipv4 (V6 _) = False"

text \<open>\<open>SocketAddr::new(IpAddr::V4(Ipv4Addr::UNSPECIFIED), 0)\<close>.\<close>

definition unspecified_addr :: socket_addr where
  "unspecified_addr = \<lparr>sa_ip = V4 0, sa_port = 0\<rparr>"

definition nat_of_be :: "nat \<Rightarrow> nat list \<Rightarrow> nat" where
  "nat_of_be base ds = foldl (\<lambda>acc d. acc * base + d) 0 ds"

definition ipv4_new :: "u8 \<Rightarrow> u8 \<Rightarrow> u8 \<Rightarrow> u8 \<Rightarrow> u32" where
  "ipv4_new a b c d = of_nat (nat_of_be 256 [unat a, unat b, unat c, unat d])"

definition ipv4_octets :: "u32 \<Rightarrow> nat list" where
  "ipv4_octets w = [unat w div 2 ^ 24, unat w div 2 ^ 16 mod 256, unat w div 2 ^ 8 mod 256, unat w mod 256]"

section \<open>Parsing\<close>

text \<open>
  A parser consumes a prefix of its input and returns the value with the rest, or \<open>None\<close>
  having consumed nothing (\<open>read_atomically\<close> of the standard library).
\<close>

definition read_number :: "nat \<Rightarrow> nat \<Rightarrow> bool \<Rightarrow> nat \<Rightarrow> string \<Rightarrow> (nat \<times> string) option" where
  "read_number radix max_digits allow_zero_prefix bound s =
     (let ds = takeWhile (\<lambda>c. to_digit radix c \<noteq> None) s;
          rest = dropWhile (\<lambda>c. to_digit radix c \<noteq> None) s
      in if length ds > max_digits \<or> ds = []
            \<or> (\<not> allow_zero_prefix \<and> hd ds = CHR ''0'' \<and> length ds > 1)
         then None
         else (case digits_value radix 0 ds of
                 None \<Rightarrow> None
               | Some v \<Rightarrow> if v \<le> bound then Some (v, rest) else None))"

fun read_given_char :: "char \<Rightarrow> string \<Rightarrow> string option" where
  "read_given_char c [] = None"
| "read_given_char c (x # xs) = (if x = c then Some xs else None)"

definition read_separator :: "char \<Rightarrow> nat \<Rightarrow> string \<Rightarrow> string option" where
  "read_separator sep i s = (if i > 0 then read_given_char sep s else Some s)"

definition read_ipv4_addr :: "string \<Rightarrow> (u32 \<times> string) option" where
  "read_ipv4_addr s0 = do {
     (a, s1) \<leftarrow> read_number 10 3 False 255 s0;
     t1 \<leftarrow> read_separator (CHR ''.'') 1 s1;
     (b, s2) \<leftarrow> read_number 10 3 False 255 t1;
     t2 \<leftarrow> read_separator (CHR ''.'') 2 s2;
     (c, s3) \<leftarrow> read_number 10 3 False 255 t2;
     t3 \<leftarrow> read_separator (CHR ''.'') 3 s3;
     (d, s4) \<leftarrow> read_number 10 3 False 255 t3;
     Some (of_nat (nat_of_be 256 [a, b, c, d]), s4)
   }"

text \<open>
  Up to \<open>limit - i\<close> colon-separated 16-bit groups, the last two of which may be written as
  an IPv4 address; the flag says whether they were.
\<close>

function read_groups :: "nat \<Rightarrow> nat \<Rightarrow> string \<Rightarrow> nat list \<times> bool \<times> string" where
  "read_groups i limit s =
     (if i \<ge> limit then ([], False, s)
      else case (if i < limit - 1 then Option.bind (read_separator (CHR '':'') i s) read_ipv4_addr else None) of
             Some (w, r) \<Rightarrow> ([unat w div 65536, unat w mod 65536], True, r)
           | None \<Rightarrow>
               (case Option.bind (read_separator (CHR '':'') i s) (read_number 16 4 True 65535) of
                  None \<Rightarrow> ([], False, s)
                | Some (g, r) \<Rightarrow>
                    (case read_groups (Suc i) limit r of (gs, v4, r') \<Rightarrow> (g # gs, v4, r'))))"
  by pat_completeness auto
termination
  by (relation "measure (\<lambda>(i, limit, s). limit - i)") auto

declare read_groups.simps [simp del]

definition read_ipv6_addr :: "string \<Rightarrow> (u128 \<times> string) option" where
  "read_ipv6_addr s =
     (case read_groups 0 8 s of
        (head, head_ipv4, s1) \<Rightarrow>
          if length head = 8 then Some (of_nat (nat_of_be 65536 head), s1)
          else if head_ipv4 then None
          else do {
            s2 \<leftarrow> read_given_char (CHR '':'') s1;
            s3 \<leftarrow> read_given_char (CHR '':'') s2;
            (case read_groups 0 (8 - (length head + 1)) s3 of
               (tail, _, s4) \<Rightarrow>
                 Some (of_nat (nat_of_be 65536
                         (head @ replicate (8 - length head - length tail) 0 @ tail)), s4))
          })"

text \<open>\<open>IpAddr::from_str\<close>: IPv4 first, then IPv6; the whole input must be used.\<close>

definition parse_ip :: "string \<Rightarrow> ip_addr option" where
  "parse_ip s =
     (case read_ipv4_addr s of
        Some (w, r) \<Rightarrow> if r = [] then Some (V4 w) else None
      | None \<Rightarrow>
          (case read_ipv6_addr s of
             Some (w, r) \<Rightarrow> if r = [] then Some (V6 w) else None
           | None \<Rightarrow> None))"

section \<open>Printing\<close>

definition show_ipv4 :: "u32 \<Rightarrow> string" where
  "show_ipv4 w =
     (let os = ipv4_octets w
      in show_nat (os ! 0) @ ''.'' @ show_nat (os ! 1) @ ''.'' @ show_nat (os ! 2) @ ''.'' @ show_nat (os ! 3))"

fun show_hex :: "nat \<Rightarrow> string" where
  "show_hex n = (if n < 16 then [digit_char n] else show_hex (n div 16) @ [digit_char (n mod 16)])"

declare show_hex.simps [simp del]

definition ipv6_segments :: "u128 \<Rightarrow> nat list" where
  "ipv6_segments w = map (\<lambda>i. unat w div 2 ^ (16 * (7 - i)) mod 65536) [0..<8]"

text \<open>The first longest run of zero segments, as (start, length).\<close>

fun longest_zeroes :: "nat \<Rightarrow> nat \<times> nat \<Rightarrow> nat \<times> nat \<Rightarrow> nat list \<Rightarrow> nat \<times> nat" where
  "longest_zeroes i cur best [] = best"
| "longest_zeroes i cur best (g # gs) =
     (if g = 0
      then (let cur' = (if snd cur = 0 then i else fst cur, snd cur + 1)
            in longest_zeroes (Suc i) cur' (if snd cur' > snd best then cur' else best) gs)
      else longest_zeroes (Suc i) (0, 0) best gs)"

fun show_segments :: "nat list \<Rightarrow> string" where
  "show_segments [] = []"
| "show_segments [g] = show_hex g"
| "show_segments (g # gs) = show_hex g @ '':'' @ show_segments gs"

definition show_ipv6 :: "u128 \<Rightarrow> string" where
  "show_ipv6 w =
     (let segs = ipv6_segments w
      in if take 6 segs = [0, 0, 0, 0, 0, 0xFFFF] then ''::ffff:'' @ show_ipv4 (of_nat (unat w mod 2 ^ 32))
         else (case longest_zeroes 0 (0, 0) (0, 0) segs of
                 (start, len) \<Rightarrow>
                   if len > 1 then show_segments (take start segs) @ ''::'' @ show_segments (drop (start + len) segs)
                   else show_segments segs))"

fun show_ip :: "ip_addr \<Rightarrow> string" where
  "show_ip (V4 w) = show_ipv4 w"
| "show_ip (V6 w) = show_ipv6 w"

text \<open>Evaluation of the parsers on a concrete text.\<close>

lemmas parse_eval =
  parse_ip_def read_ipv4_addr_def read_number_def read_separator_def to_digit_def nat_of_be_def
  parse_u8_def parse_u16_def parse_unsigned_def Let_def

section \<open>Printing an IPv4 address and parsing it back\<close>

lemma to_digit_dot [simp]: "to_digit 10 (CHR ''.'') = None"
  by (simp add: to_digit_def Let_def)

lemma show_nat_to_digit: "c \<in> set (show_nat n) \<Longrightarrow> to_digit 10 c \<noteq> None"
  by (drule show_nat_digits) auto

lemma show_nat_small_cases:
  "n < 10 \<Longrightarrow> show_nat n = [digit_char n]"
  "10 \<le> n \<Longrightarrow> n < 100 \<Longrightarrow> show_nat n = [digit_char (n div 10), digit_char (n mod 10)]"
  "100 \<le> n \<Longrightarrow> n < 1000 \<Longrightarrow>
     show_nat n = [digit_char (n div 100), digit_char (n div 10 mod 10), digit_char (n mod 10)]"
proof -
  show a: "n < 10 \<Longrightarrow> show_nat n = [digit_char n]" for n
    by (simp add: show_nat.simps)
  show b: "10 \<le> n \<Longrightarrow> n < 100 \<Longrightarrow> show_nat n = [digit_char (n div 10), digit_char (n mod 10)]" for n
    by (subst show_nat.simps) (auto simp: a)
  show "100 \<le> n \<Longrightarrow> n < 1000 \<Longrightarrow>
     show_nat n = [digit_char (n div 100), digit_char (n div 10 mod 10), digit_char (n mod 10)]"
    by (subst show_nat.simps) (auto simp: b div_mult2_eq [symmetric])
qed

lemma show_nat_octet_shape:
  assumes "n < 1000"
  shows "length (show_nat n) \<le> 3"
    and "length (show_nat n) > 1 \<Longrightarrow> hd (show_nat n) \<noteq> CHR ''0''"
proof -
  consider "n < 10" | "10 \<le> n" "n < 100" | "100 \<le> n" "n < 1000"
    using assms by linarith
  then show "length (show_nat n) \<le> 3"
    and "length (show_nat n) > 1 \<Longrightarrow> hd (show_nat n) \<noteq> CHR ''0''"
    by (cases; auto simp: show_nat_small_cases digit_char_eq_iff)+
qed

lemma takeWhile_show_nat:
  assumes "r = [] \<or> to_digit 10 (hd r) = None"
  shows "takeWhile (\<lambda>c. to_digit 10 c \<noteq> None) (show_nat n @ r) = show_nat n"
    and "dropWhile (\<lambda>c. to_digit 10 c \<noteq> None) (show_nat n @ r) = r"
  using assms show_nat_to_digit [of _ n]
  by (cases r; simp add: takeWhile_append2 dropWhile_append2 del: not_None_eq)+

lemma read_number_show_nat:
  assumes "n \<le> 255" and "r = [] \<or> to_digit 10 (hd r) = None"
  shows "read_number 10 3 False 255 (show_nat n @ r) = Some (n, r)"
proof -
  have "n < 1000" using assms(1) by simp
  then have "\<not> (hd (show_nat n) = CHR ''0'' \<and> length (show_nat n) > 1)"
    using show_nat_octet_shape(2) [of n] by blast
  then show ?thesis
    using show_nat_octet_shape(1) [OF \<open>n < 1000\<close>] assms
    by (simp add: read_number_def takeWhile_show_nat digits_value_show_nat Let_def del: not_None_eq)
qed

lemma ipv4_octets_le:
  "unat (w :: u32) div 2 ^ 24 \<le> 255" "unat w div 2 ^ 16 mod 256 \<le> 255"
  "unat w div 2 ^ 8 mod 256 \<le> 255" "unat w mod 256 \<le> 255"
proof -
  have "unat w < 256 * 2 ^ 24" using unat_bound [of w] by simp
  then have "unat w div 2 ^ 24 < 256" by (rule less_mult_imp_div_less)
  then show "unat w div 2 ^ 24 \<le> 255" by linarith
  have "x mod 256 \<le> 255" for x :: nat
    using mod_less_divisor [of 256 x] by linarith
  then show "unat w div 2 ^ 16 mod 256 \<le> 255" "unat w div 2 ^ 8 mod 256 \<le> 255" "unat w mod 256 \<le> 255"
    by blast+
qed

lemma nat_of_be_octets: "of_nat (nat_of_be 256 (ipv4_octets w)) = w"
proof -
  have "(n div 2 ^ 24 * 256 + n div 2 ^ 16 mod 256) * 256 + n div 2 ^ 8 mod 256 = n div 2 ^ 8" for n :: nat
  proof -
    have "n div 2 ^ 16 = n div 2 ^ 8 div 256" "n div 2 ^ 24 = n div 2 ^ 8 div 256 div 256"
      by (simp_all add: div_mult2_eq [symmetric])
    then show ?thesis by (simp only: div_mult_mod_eq)
  qed
  then have "nat_of_be 256 (ipv4_octets w) = unat w"
    by (simp add: nat_of_be_def ipv4_octets_def)
  then show ?thesis by simp
qed

lemma read_ipv4_show:
  assumes "r = [] \<or> to_digit 10 (hd r) = None"
  shows "read_ipv4_addr (show_ipv4 w @ r) = Some (w, r)"
proof -
  obtain a b c d where os: "ipv4_octets w = [a, b, c, d]"
    and le: "a \<le> 255" "b \<le> 255" "c \<le> 255" "d \<le> 255"
    using ipv4_octets_le [of w] by (auto simp: ipv4_octets_def)
  have w: "of_nat (nat_of_be 256 [a, b, c, d]) = w"
    using nat_of_be_octets [of w] by (simp add: os)
  show ?thesis
    unfolding read_ipv4_addr_def
    using le assms
    by (simp add: show_ipv4_def os Let_def read_number_show_nat read_separator_def w)
qed

end
