(* ===== verification/Http.thy ===== *)
theory Http
  imports Prelude
begin

text \<open>
  The interface to the \<open>http\<close> crate. \<open>HeaderName\<close>, \<open>HeaderValue\<close>, \<open>HeaderMap\<close> and
  \<open>Uri\<close> are third-party code: their operations are the fields of a record that the
  definitions of the components take as an argument, and the locale \<open>http_crate\<close> states what
  the crate documents about them. A header name is its canonical lower-case text; a header map
  is an abstract value observed through the sequence \<open>iter\<close> yields.
\<close>

record uri =
  scheme_str :: "string option"
  uri_host :: "string option"

record 'h http_lib =
  name_from_bytes :: "string \<Rightarrow> string option"
  value_from_str :: "string \<Rightarrow> string option"
  value_to_str :: "string \<Rightarrow> string option"
  hm_empty :: 'h
  hm_iter :: "'h \<Rightarrow> (string \<times> string) list"
  hm_get :: "'h \<Rightarrow> string \<Rightarrow> string option"
  hm_contains_key :: "'h \<Rightarrow> string \<Rightarrow> bool"
  hm_insert :: "'h \<Rightarrow> string \<Rightarrow> string \<Rightarrow> 'h"
  hm_append :: "'h \<Rightarrow> string \<Rightarrow> string \<Rightarrow> 'h"
  uri_parse :: "string \<Rightarrow> uri option"

text \<open>The values a header map holds for a name, in order.\<close>

definition vals :: "'h http_lib \<Rightarrow> 'h \<Rightarrow> string \<Rightarrow> string list" where
  "vals L h n = map snd (filter (\<lambda>(k, v). k = n) (hm_iter L h))"

definition token_char :: "char \<Rightarrow> bool" where
  "token_char c =
     (let n = of_char c :: nat
      in (48 \<le> n \<and> n \<le> 57) \<or> (65 \<le> n \<and> n \<le> 90) \<or> (97 \<le> n \<and> n \<le> 122)
         \<or> c \<in> set ''!#$%&*+-.^_`|~'' \<or> n = 39)"

definition visible_char :: "char \<Rightarrow> bool" where
  "visible_char c = ((32 \<le> (of_char c :: nat) \<and> (of_char c :: nat) < 127) \<or> (of_char c :: nat) = 9)"

text \<open>
  What the crate documents: a non-empty token is a header name and is lower-cased; visible
  ASCII text is a header value and reads back as itself; \<open>get\<close> returns the first value,
  \<open>insert\<close> replaces all values of a name, \<open>append\<close> adds one after them, and neither touches
  another name.
\<close>

locale http_crate =
  fixes L :: "'h http_lib"
  assumes name_token: "s \<noteq> [] \<Longrightarrow> list_all token_char s \<Longrightarrow> name_from_bytes L s = Some (to_ascii_lowercase s)"
    and value_visible: "list_all visible_char s \<Longrightarrow> value_from_str L s = Some s"
    and to_str_visible: "list_all visible_char s \<Longrightarrow> value_to_str L s = Some s"
    and vals_empty: "vals L (hm_empty L) n = []"
    and get_vals: "hm_get L h n = (case vals L h n of [] \<Rightarrow> None | v # _ \<Rightarrow> Some v)"
    and contains_vals: "hm_contains_key L h n \<longleftrightarrow> vals L h n \<noteq> []"
    and vals_insert: "vals L (hm_insert L h n v) m = (if m = n then [v] else vals L h m)"
    and vals_append: "vals L (hm_append L h n v) m = (if m = n then vals L h n @ [v] else vals L h m)"
begin

lemmas http_simps = vals_empty get_vals contains_vals vals_insert vals_append

lemma get_insert: "hm_get L (hm_insert L h n v) n = Some v"
  by (simp add: http_simps)

lemma get_append: "hm_get L h n = None \<Longrightarrow> hm_get L (hm_append L h n v) n = Some v"
  by (auto simp: http_simps split: list.splits)

lemma contains_append: "hm_contains_key L (hm_append L h n v) m \<longleftrightarrow> m = n \<or> hm_contains_key L h m"
  by (simp add: http_simps)

lemma contains_insert: "hm_contains_key L (hm_insert L h n v) m \<longleftrightarrow> m = n \<or> hm_contains_key L h m"
  by (simp add: http_simps)

text \<open>Copying the headers that pass a test, as both loops of \<open>attempt_proxy\<close> do.\<close>

lemma vals_copy:
  "vals L (foldl (\<lambda>h (n, v). if keep n then hm_append L h n v else h) h0 kvs) m
     = vals L h0 m @ (if keep m then map snd (filter (\<lambda>(k, v). k = m) kvs) else [])"
  by (induction kvs arbitrary: h0) (auto simp: http_simps)

end

text \<open>
  A header map as the association list it iterates over: the instance on which the interface is
  interpreted and the witnesses are evaluated. Its names and values are accepted exactly when the
  documentation says they are.
\<close>

definition alist_http :: "(string \<Rightarrow> uri option) \<Rightarrow> (string \<times> string) list http_lib" where
  "alist_http up =
     \<lparr>name_from_bytes = (\<lambda>s. if s \<noteq> [] \<and> list_all token_char s then Some (to_ascii_lowercase s) else None),
      value_from_str = (\<lambda>s. if list_all visible_char s then Some s else None),
      value_to_str = (\<lambda>s. if list_all visible_char s then Some s else None),
      hm_empty = [],
      hm_iter = (\<lambda>h. h),
      hm_get = map_of,
      hm_contains_key = (\<lambda>h n. map_of h n \<noteq> None),
      hm_insert = (\<lambda>h n v. filter (\<lambda>(k, _). k \<noteq> n) h @ [(n, v)]),
      hm_append = (\<lambda>h n v. h @ [(n, v)]),
      uri_parse = up\<rparr>"

lemma map_of_vals:
  "map_of h n = (case map snd (filter (\<lambda>(k, v). k = n) h) of [] \<Rightarrow> None | v # _ \<Rightarrow> Some v)"
  by (induction h) auto

lemma alist_http_crate: "http_crate (alist_http up)"
proof
  show "hm_get (alist_http up) h n = (case vals (alist_http up) h n of [] \<Rightarrow> None | v # _ \<Rightarrow> Some v)" for h n
    by (simp add: alist_http_def vals_def map_of_vals)
  show "hm_contains_key (alist_http up) h n = (vals (alist_http up) h n \<noteq> [])" for h n
    by (cases "filter (\<lambda>(k, v). k = n) h") (simp_all add: alist_http_def vals_def map_of_vals)
  show "vals (alist_http up) (hm_insert (alist_http up) h n v) m
      = (if m = n then [v] else vals (alist_http up) h m)" for h n v m
    by (induction h) (auto simp: alist_http_def vals_def)
  show "vals (alist_http up) (hm_append (alist_http up) h n v) m
      = (if m = n then vals (alist_http up) h n @ [v] else vals (alist_http up) h m)" for h n v m
    by (simp add: alist_http_def vals_def)
qed (simp_all add: alist_http_def vals_def)

interpretation alist: http_crate "alist_http up" for up
  by (rule alist_http_crate)

end
