(* ===== verification/Config.thy ===== *)
theory Config
  imports Time Net Http
begin

text \<open>
  The configuration of \<open>src/config/mod.rs\<close> and its validation in \<open>src/config/validator.rs\<close>. The
  YAML deserialiser (\<open>serde_yaml\<close>), the URI parser (\<open>http::Uri\<close>) and the file system are
  arguments. An error of \<open>anyhow\<close> is a constructor per message.
\<close>

section \<open>Data\<close>

record upstream =
  address :: string
  weight :: u32

datatype load_balancing_algorithm = RoundRobin | WeightedRoundRobin | LeastConnections | PowerOfTwoChoices

record route_config =
  path_prefix :: string
  route_upstreams :: "upstream list"
  route_load_balancing :: "load_balancing_algorithm option"

record tls_config =
  cert :: string
  key :: string

record sticky_config =
  cookie_name :: string
  max_age_secs :: u64

text \<open>The two maps in one iteration order.\<close>

record header_config =
  request_set :: "(string \<times> string) list"
  response_set :: "(string \<times> string) list"

record health_check_config =
  interval_secs :: u64
  timeout_secs :: u64
  health_path :: string
  unhealthy_threshold :: u32
  healthy_threshold :: u32

record timeout_config =
  connect_secs :: u64
  request_secs :: u64
  idle_secs :: u64

record rate_limit_yaml =
  rps :: u32
  burst_factor :: f64

record acl_config =
  acl_allow :: "string list"
  acl_deny :: "string list"

record config =
  listen :: socket_addr
  metrics_listen :: socket_addr
  max_concurrency :: "usize option"
  upstreams :: "upstream list"
  routes :: "route_config list"
  load_balancing :: load_balancing_algorithm
  health_check :: health_check_config
  timeouts :: timeout_config
  tls :: "tls_config option"
  retries :: u32
  max_connections :: usize
  sticky :: "sticky_config option"
  headers :: header_config
  access_log :: bool
  rate_limit :: "rate_limit_yaml option"
  proxy_protocol :: bool
  upstream_http2 :: bool
  pool_max_idle_per_host :: usize
  max_body_bytes :: usize
  retry_idempotent_only :: bool
  force_retry_with_body :: bool
  acl :: "acl_config option"
  security_headers :: bool
  admin_token :: "string option"
  proxy_protocol_trusted_cidrs :: "string list"

section \<open>Defaults\<close>

definition default_max_body :: usize where
  "default_max_body = 16 * 1024 * 1024"

definition default_pool_max_idle :: usize where
  "default_pool_max_idle = 64"

definition default_burst :: f64 where
  "default_burst = Fin (3 / 2)"

definition default_retries :: u32 where
  "default_retries = 1"

definition default_weight :: u32 where
  "default_weight = 1"

definition default_health_check :: health_check_config where
  "default_health_check =
     \<lparr>interval_secs = 5, timeout_secs = 2, health_path = ''/'', unhealthy_threshold = 3, healthy_threshold = 2\<rparr>"

definition default_timeouts :: timeout_config where
  "default_timeouts = \<lparr>connect_secs = 5, request_secs = 30, idle_secs = 60\<rparr>"

definition default_sticky :: sticky_config where
  "default_sticky = \<lparr>cookie_name = ''OXIGATE'', max_age_secs = 3600\<rparr>"

text \<open>The value of every field the YAML text omits; the two addresses have no default.\<close>

definition default_config :: "socket_addr \<Rightarrow> socket_addr \<Rightarrow> config" where
  "default_config l m =
     \<lparr>listen = l, metrics_listen = m, max_concurrency = None, upstreams = [], routes = [],
      load_balancing = RoundRobin, health_check = default_health_check, timeouts = default_timeouts,
      tls = None, retries = default_retries, max_connections = 0, sticky = None,
      headers = \<lparr>request_set = [], response_set = []\<rparr>, access_log = True, rate_limit = None,
      proxy_protocol = False, upstream_http2 = False, pool_max_idle_per_host = default_pool_max_idle,
      max_body_bytes = default_max_body, retry_idempotent_only = True, force_retry_with_body = False,
      acl = None, security_headers = True, admin_token = None, proxy_protocol_trusted_cidrs = []\<rparr>"

definition connect_timeout :: "config \<Rightarrow> duration" where
  "connect_timeout c = from_secs (connect_secs (timeouts c))"

definition request_timeout :: "config \<Rightarrow> duration" where
  "request_timeout c = from_secs (request_secs (timeouts c))"

definition health_interval :: "config \<Rightarrow> duration" where
  "health_interval c = from_secs (interval_secs (health_check c))"

section \<open>Validation\<close>

datatype config_error =
    NoUpstreams
  | UpstreamAddressEmpty nat
  | UpstreamWeightZero nat
  | UpstreamBadUri nat
  | UpstreamBadScheme nat "string option"
  | UpstreamNoHost nat
  | RouteNoUpstream nat
  | RoutePrefixEmpty nat
  | InRoute nat config_error
  | HealthIntervalZero
  | HealthTimeoutZero
  | HealthTimeoutUnreasonable
  | TimeoutsZero
  | MaxBodyZero
  | RateRpsZero
  | RateBurstNotPositive
  | TlsCertMissing string
  | TlsKeyMissing string
  | CidrBadIp string
  | CidrBadPrefix string
  | CidrPrefixRange string
  | CidrBad string
  | ConfigUnreadable
  | ConfigBadYaml

text \<open>A sequence of fallible statements stops at the first error.\<close>

fun first_error :: "('e + unit) list \<Rightarrow> 'e + unit" where
  "first_error [] = Inr ()"
| "first_error (Inl e # rs) = Inl e"
| "first_error (Inr u # rs) = first_error rs"

definition bail_if :: "bool \<Rightarrow> 'e \<Rightarrow> 'e + unit" where
  "bail_if b e = (if b then Inl e else Inr ())"

definition map_err :: "('e \<Rightarrow> 'f) \<Rightarrow> 'e + 'a \<Rightarrow> 'f + 'a" where
  "map_err f r = (case r of Inl e \<Rightarrow> Inl (f e) | Inr a \<Rightarrow> Inr a)"

definition validate_upstream :: "(string \<Rightarrow> uri option) \<Rightarrow> nat \<Rightarrow> upstream \<Rightarrow> config_error + unit" where
  "validate_upstream parse_uri i u =
     (if address u = [] then Inl (UpstreamAddressEmpty i)
      else if weight u = 0 then Inl (UpstreamWeightZero i)
      else (case parse_uri (address u) of
              None \<Rightarrow> Inl (UpstreamBadUri i)
            | Some url \<Rightarrow>
                if \<not> (scheme_str url = Some ''http'' \<or> scheme_str url = Some ''https'')
                then Inl (UpstreamBadScheme i (scheme_str url))
                else if uri_host url = None then Inl (UpstreamNoHost i)
                else Inr ()))"

definition validate_cidr :: "string \<Rightarrow> config_error + unit" where
  "validate_cidr s =
     (case split_once (CHR ''/'') s of
        Some (ip, pfx) \<Rightarrow>
          (case parse_ip ip of
             None \<Rightarrow> Inl (CidrBadIp s)
           | Some _ \<Rightarrow>
               (case parse_u8 pfx of
                  None \<Rightarrow> Inl (CidrBadPrefix s)
                | Some p \<Rightarrow> if p > 128 then Inl (CidrPrefixRange s) else Inr ()))
      | None \<Rightarrow> (case parse_ip s of None \<Rightarrow> Inl (CidrBad s) | Some _ \<Rightarrow> Inr ()))"

definition validate_route :: "(string \<Rightarrow> uri option) \<Rightarrow> nat \<Rightarrow> route_config \<Rightarrow> config_error + unit" where
  "validate_route parse_uri ri r =
     first_error
       [bail_if (route_upstreams r = []) (RouteNoUpstream ri),
        bail_if (path_prefix r = []) (RoutePrefixEmpty ri),
        first_error (map (\<lambda>(ui, u). map_err (InRoute ri) (validate_upstream parse_uri ui u))
          (enumerate 0 (route_upstreams r)))]"

definition validate :: "(string \<Rightarrow> uri option) \<Rightarrow> (string \<Rightarrow> bool) \<Rightarrow> config \<Rightarrow> config_error + unit" where
  "validate parse_uri file_exists c =
     first_error
       [bail_if (upstreams c = [] \<and> routes c = []) NoUpstreams,
        first_error (map (\<lambda>(i, u). validate_upstream parse_uri i u) (enumerate 0 (upstreams c))),
        first_error (map (\<lambda>(ri, r). validate_route parse_uri ri r) (enumerate 0 (routes c))),
        bail_if (interval_secs (health_check c) = 0) HealthIntervalZero,
        bail_if (timeout_secs (health_check c) = 0) HealthTimeoutZero,
        bail_if (timeout_secs (health_check c) > interval_secs (health_check c) * 10) HealthTimeoutUnreasonable,
        bail_if (connect_secs (timeouts c) = 0 \<or> request_secs (timeouts c) = 0) TimeoutsZero,
        bail_if (max_body_bytes c = 0) MaxBodyZero,
        (case rate_limit c of
           None \<Rightarrow> Inr ()
         | Some rl \<Rightarrow>
             first_error [bail_if (rps rl = 0) RateRpsZero,
                          bail_if (f64_le (burst_factor rl) (Fin 0)) RateBurstNotPositive]),
        (case tls c of
           None \<Rightarrow> Inr ()
         | Some t \<Rightarrow>
             first_error [bail_if (\<not> file_exists (cert t)) (TlsCertMissing (cert t)),
                          bail_if (\<not> file_exists (key t)) (TlsKeyMissing (key t))]),
        (case acl c of
           None \<Rightarrow> Inr ()
         | Some a \<Rightarrow> first_error (map validate_cidr (acl_allow a @ acl_deny a))),
        first_error (map validate_cidr (proxy_protocol_trusted_cidrs c))]"

text \<open>\<open>Config::from_file\<close>: read, deserialise, validate.\<close>

definition from_file ::
  "(string \<Rightarrow> string option) \<Rightarrow> (string \<Rightarrow> config option) \<Rightarrow> (string \<Rightarrow> uri option) \<Rightarrow> (string \<Rightarrow> bool)
     \<Rightarrow> string \<Rightarrow> config_error + config" where
  "from_file read_to_string from_yaml parse_uri file_exists path =
     (case read_to_string path of
        None \<Rightarrow> Inl ConfigUnreadable
      | Some content \<Rightarrow>
          (case from_yaml content of
             None \<Rightarrow> Inl ConfigBadYaml
           | Some c \<Rightarrow>
               (case validate parse_uri file_exists c of
                  Inl e \<Rightarrow> Inl e
                | Inr _ \<Rightarrow> Inr c)))"

section \<open>What validation guarantees\<close>

lemma first_error_ok: "first_error rs = Inr () \<longleftrightarrow> (\<forall>r \<in> set rs. r = Inr ())"
  by (induction rs rule: first_error.induct) auto

lemma bail_if_ok [simp]: "bail_if b e = Inr () \<longleftrightarrow> \<not> b"
  by (simp add: bail_if_def)

lemma map_err_ok [simp]: "map_err f r = Inr a \<longleftrightarrow> r = Inr a"
  by (cases r) (simp_all add: map_err_def)

lemma enumerate_all: "(\<forall>p \<in> set (enumerate n xs). P (snd p)) \<longleftrightarrow> (\<forall>x \<in> set xs. P x)"
proof -
  have "set (map snd (enumerate n xs)) = set xs" by simp
  then show ?thesis by (metis (mono_tags, lifting) image_iff image_set)
qed

definition valid_upstream :: "(string \<Rightarrow> uri option) \<Rightarrow> upstream \<Rightarrow> bool" where
  "valid_upstream parse_uri u \<longleftrightarrow>
     address u \<noteq> [] \<and> 0 < weight u
     \<and> (\<exists>url. parse_uri (address u) = Some url \<and> scheme_str url \<in> {Some ''http'', Some ''https''}
              \<and> uri_host url \<noteq> None)"

lemma validate_upstream_ok: "validate_upstream parse_uri i u = Inr () \<longleftrightarrow> valid_upstream parse_uri u"
  by (auto simp: validate_upstream_def valid_upstream_def word_gt_0 split: option.splits)

lemma validate_upstreams_ok:
  "first_error (map (\<lambda>(i, u). validate_upstream parse_uri i u) (enumerate 0 us)) = Inr ()
     \<longleftrightarrow> (\<forall>u \<in> set us. valid_upstream parse_uri u)"
  by (simp add: first_error_ok case_prod_beta validate_upstream_ok enumerate_all)

definition valid_route :: "(string \<Rightarrow> uri option) \<Rightarrow> route_config \<Rightarrow> bool" where
  "valid_route parse_uri r \<longleftrightarrow>
     route_upstreams r \<noteq> [] \<and> path_prefix r \<noteq> [] \<and> (\<forall>u \<in> set (route_upstreams r). valid_upstream parse_uri u)"

lemma validate_route_ok: "validate_route parse_uri ri r = Inr () \<longleftrightarrow> valid_route parse_uri r"
  by (simp add: validate_route_def valid_route_def first_error_ok case_prod_beta validate_upstream_ok
      enumerate_all)

lemma validate_routes_ok:
  "first_error (map (\<lambda>(ri, r). validate_route parse_uri ri r) (enumerate 0 rs)) = Inr ()
     \<longleftrightarrow> (\<forall>r \<in> set rs. valid_route parse_uri r)"
  by (simp add: first_error_ok case_prod_beta validate_route_ok enumerate_all)

text \<open>The well-formedness invariant of an accepted configuration.\<close>

definition valid_config :: "(string \<Rightarrow> uri option) \<Rightarrow> config \<Rightarrow> bool" where
  "valid_config parse_uri c \<longleftrightarrow>
     (upstreams c \<noteq> [] \<or> routes c \<noteq> [])
     \<and> (\<forall>u \<in> set (upstreams c). valid_upstream parse_uri u)
     \<and> (\<forall>r \<in> set (routes c). valid_route parse_uri r)
     \<and> 0 < interval_secs (health_check c) \<and> 0 < timeout_secs (health_check c)
     \<and> 0 < connect_secs (timeouts c) \<and> 0 < request_secs (timeouts c) \<and> 0 < max_body_bytes c
     \<and> (\<forall>rl. rate_limit c = Some rl \<longrightarrow> 0 < rps rl \<and> \<not> f64_le (burst_factor rl) (Fin 0))
     \<and> (\<forall>a. acl c = Some a \<longrightarrow> (\<forall>s \<in> set (acl_allow a @ acl_deny a). validate_cidr s = Inr ()))
     \<and> (\<forall>s \<in> set (proxy_protocol_trusted_cidrs c). validate_cidr s = Inr ())"

lemma validate_valid_config:
  assumes "validate parse_uri file_exists c = Inr ()"
  shows "valid_config parse_uri c"
proof -
  note parts = assms [unfolded validate_def first_error_ok [of "_ # _"] set_simps ball_simps]
  have "\<forall>u \<in> set (upstreams c). valid_upstream parse_uri u"
    and "\<forall>r \<in> set (routes c). valid_route parse_uri r"
    using parts by (simp_all add: validate_upstreams_ok validate_routes_ok)
  moreover have "\<forall>a. acl c = Some a \<longrightarrow> (\<forall>s \<in> set (acl_allow a @ acl_deny a). validate_cidr s = Inr ())"
    and "\<forall>s \<in> set (proxy_protocol_trusted_cidrs c). validate_cidr s = Inr ()"
    using parts by (auto simp: first_error_ok)
  moreover have "\<forall>rl. rate_limit c = Some rl \<longrightarrow> 0 < rps rl \<and> \<not> f64_le (burst_factor rl) (Fin 0)"
    using parts by (auto simp: first_error_ok word_gt_0)
  ultimately show ?thesis
    unfolding valid_config_def using parts by (simp add: word_gt_0)
qed

end
