(* ===== verification/LoadBalancer.thy ===== *)
theory LoadBalancer
  imports Config
begin

text \<open>
  The load balancer of \<open>src/lb\<close>. An \<open>Arc<UpstreamRuntime>\<close> is the position of the upstream in its
  balancer's vector, so that selecting returns a reference and the counters and health flags stay
  with the balancer. The atomics are plain fields: a selection is one step of the balancer's state,
  and the counters keep the width of \<open>usize\<close> and wrap like \<open>fetch_add\<close> and \<open>fetch_sub\<close>.
\<close>

section \<open>Definitions\<close>

record upstream_runtime =
  rt_address :: string
  rt_weight :: u32
  healthy :: bool
  active_connections :: usize

definition upstream_runtime_new :: "upstream \<Rightarrow> upstream_runtime" where
  "upstream_runtime_new u =
     \<lparr>rt_address = address u, rt_weight = weight u, healthy = True, active_connections = 0\<rparr>"

definition set_healthy :: "bool \<Rightarrow> upstream_runtime \<Rightarrow> upstream_runtime" where
  "set_healthy h u = u\<lparr>healthy := h\<rparr>"

definition inc_connections :: "upstream_runtime \<Rightarrow> upstream_runtime" where
  "inc_connections u = u\<lparr>active_connections := active_connections u + 1\<rparr>"

definition dec_connections :: "upstream_runtime \<Rightarrow> upstream_runtime" where
  "dec_connections u = u\<lparr>active_connections := active_connections u - 1\<rparr>"

record load_balancer =
  lb_upstreams :: "upstream_runtime list"
  algorithm :: load_balancing_algorithm
  rr_counter :: usize

definition from_upstreams :: "upstream list \<Rightarrow> load_balancing_algorithm \<Rightarrow> load_balancer" where
  "from_upstreams us algo =
     \<lparr>lb_upstreams = map upstream_runtime_new us, algorithm = algo, rr_counter = 0\<rparr>"

definition lb_from_config :: "config \<Rightarrow> load_balancer" where
  "lb_from_config c = from_upstreams (upstreams c) (load_balancing c)"

text \<open>\<open>least_conn::select\<close>: \<open>min_by_key\<close> returns the first of several minima.\<close>

fun min_by_key :: "('a \<Rightarrow> 'b::linorder) \<Rightarrow> 'a list \<Rightarrow> 'a option" where
  "min_by_key f [] = None"
| "min_by_key f (x # xs) =
     (case min_by_key f xs of
        None \<Rightarrow> Some x
      | Some y \<Rightarrow> if f x \<le> f y then Some x else Some y)"

definition least_conn_select :: "load_balancer \<Rightarrow> nat list \<Rightarrow> nat option" where
  "least_conn_select lb hs = min_by_key (\<lambda>i. active_connections (lb_upstreams lb ! i)) hs"

text \<open>The vector \<open>healthy\<close> of \<open>select_excluding\<close>.\<close>

definition eligible :: "load_balancer \<Rightarrow> string list \<Rightarrow> nat list" where
  "eligible lb exclude =
     filter (\<lambda>i. healthy (lb_upstreams lb ! i)
                 \<and> \<not> list_ex (\<lambda>e. e = rt_address (lb_upstreams lb ! i)) exclude)
       [0..<length (lb_upstreams lb)]"

text \<open>Every index repeated by its weight.\<close>

definition expand :: "load_balancer \<Rightarrow> nat list \<Rightarrow> nat list" where
  "expand lb hs = concat (map (\<lambda>i. replicate (unat (max (rt_weight (lb_upstreams lb ! i)) 1)) i) hs)"

definition select_excluding :: "load_balancer \<Rightarrow> string list \<Rightarrow> nat option \<times> load_balancer" where
  "select_excluding lb exclude =
     (let hs = eligible lb exclude
      in if hs = [] then (None, lb)
         else (case algorithm lb of
                 RoundRobin \<Rightarrow>
                   (Some (hs ! (unat (rr_counter lb) mod length hs)),
                    lb\<lparr>rr_counter := rr_counter lb + 1\<rparr>)
               | WeightedRoundRobin \<Rightarrow>
                   (let ex = expand lb hs
                    in if ex = [] then (None, lb)
                       else (Some (ex ! (unat (rr_counter lb) mod length ex)),
                             lb\<lparr>rr_counter := rr_counter lb + 1\<rparr>))
               | LeastConnections \<Rightarrow> (least_conn_select lb hs, lb)
               | PowerOfTwoChoices \<Rightarrow>
                   if length hs = 1 then (Some (hs ! 0), lb)
                   else (let base = rr_counter lb;
                             a = hs ! (unat base mod length hs);
                             b = hs ! (unat (base + 1) mod length hs)
                         in (if active_connections (lb_upstreams lb ! a)
                                \<le> active_connections (lb_upstreams lb ! b)
                             then Some a else Some b,
                             lb\<lparr>rr_counter := base + 2\<rparr>))))"

definition select :: "load_balancer \<Rightarrow> nat option \<times> load_balancer" where
  "select lb = select_excluding lb []"

definition select_sticky :: "load_balancer \<Rightarrow> string option \<Rightarrow> nat option \<times> load_balancer" where
  "select_sticky lb sticky_value =
     (case sticky_value of
        None \<Rightarrow> select_excluding lb []
      | Some v \<Rightarrow>
          (case find (\<lambda>i. healthy (lb_upstreams lb ! i) \<and> rt_address (lb_upstreams lb ! i) = v)
                  [0..<length (lb_upstreams lb)] of
             Some i \<Rightarrow> (Some i, lb)
           | None \<Rightarrow> select_excluding lb []))"

text \<open>\<open>n\<close> successive selections with nothing in between.\<close>

fun select_many :: "nat \<Rightarrow> load_balancer \<Rightarrow> nat option list" where
  "select_many 0 lb = []"
| "select_many (Suc n) lb = (case select lb of (r, lb') \<Rightarrow> r # select_many n lb')"

text \<open>An update of one upstream through its reference.\<close>

definition update_upstream :: "nat \<Rightarrow> (upstream_runtime \<Rightarrow> upstream_runtime) \<Rightarrow> load_balancer \<Rightarrow> load_balancer" where
  "update_upstream i f lb =
     (if i < length (lb_upstreams lb)
      then lb\<lparr>lb_upstreams := (lb_upstreams lb)[i := f (lb_upstreams lb ! i)]\<rparr> else lb)"

section \<open>The contract of a selector\<close>

text \<open>
  What the callers of a balancer rely on: it returns an available upstream whose address is not
  excluded, it returns nothing only when every available address is excluded, and selecting changes
  neither availability nor addresses.
\<close>

locale selector =
  fixes sel :: "'lb \<Rightarrow> string list \<Rightarrow> nat option \<times> 'lb"
    and available :: "'lb \<Rightarrow> nat \<Rightarrow> bool"
    and addr :: "'lb \<Rightarrow> nat \<Rightarrow> string"
  assumes sel_Some: "sel lb ex = (Some i, lb') \<Longrightarrow> available lb i \<and> addr lb i \<notin> set ex"
    and sel_None: "sel lb ex = (None, lb') \<Longrightarrow> available lb i \<Longrightarrow> addr lb i \<in> set ex"
    and sel_available: "available (snd (sel lb ex)) = available lb"
    and sel_addr: "addr (snd (sel lb ex)) = addr lb"
begin

lemma sel_Some_iff: "fst (sel lb ex) \<noteq> None \<longleftrightarrow> (\<exists>i. available lb i \<and> addr lb i \<notin> set ex)"
  using sel_Some [of lb ex] sel_None [of lb ex] by (cases "sel lb ex"; cases "fst (sel lb ex)") auto

lemma sel_excludes: "fst (sel lb (addr lb i # ex)) \<noteq> Some i"
  using sel_Some [of lb "addr lb i # ex"] by (cases "sel lb (addr lb i # ex)") auto

end

section \<open>Lemmas\<close>

definition available :: "load_balancer \<Rightarrow> nat \<Rightarrow> bool" where
  "available lb i \<longleftrightarrow> i < length (lb_upstreams lb) \<and> healthy (lb_upstreams lb ! i)"

definition lb_addr :: "load_balancer \<Rightarrow> nat \<Rightarrow> string" where
  "lb_addr lb i = rt_address (lb_upstreams lb ! i)"

definition conns :: "load_balancer \<Rightarrow> nat \<Rightarrow> usize" where
  "conns lb i = active_connections (lb_upstreams lb ! i)"

lemma set_eligible: "set (eligible lb ex) = {i. available lb i \<and> lb_addr lb i \<notin> set ex}"
  by (auto simp: eligible_def available_def lb_addr_def list_ex_iff)

lemma distinct_eligible: "distinct (eligible lb ex)"
  by (simp add: eligible_def)

lemma min_by_key_None [simp]: "min_by_key f xs = None \<longleftrightarrow> xs = []"
  by (cases xs) (auto split: option.splits)

lemma min_by_key_Some:
  "min_by_key f xs = Some y \<Longrightarrow> y \<in> set xs \<and> (\<forall>x \<in> set xs. f y \<le> f x)"
proof (induction xs arbitrary: y)
  case (Cons x xs)
  then show ?case by (fastforce split: option.splits if_splits)
qed simp

lemma set_expand: "set (expand lb hs) = set hs"
  using unat_max_one_pos by (auto simp: expand_def simp del: unat_max_one_pos)

lemma expand_nonempty [simp]: "expand lb hs = [] \<longleftrightarrow> hs = []"
  by (metis set_empty set_expand)

lemma nth_mod_in_set: "xs \<noteq> [] \<Longrightarrow> xs ! (k mod length xs) \<in> set xs"
  by (simp add: mod_less_divisor)

lemma select_excluding_in:
  assumes "select_excluding lb ex = (Some i, lb')"
  shows "i \<in> set (eligible lb ex)"
proof (cases "algorithm lb")
  case LeastConnections
  then show ?thesis
    using assms by (auto simp: select_excluding_def least_conn_select_def Let_def
        dest: min_by_key_Some split: if_splits)
next
  case WeightedRoundRobin
  then show ?thesis
    using assms nth_mod_in_set [of "expand lb (eligible lb ex)" "unat (rr_counter lb)"]
    by (auto simp: select_excluding_def Let_def set_expand split: if_splits)
next
  case PowerOfTwoChoices
  then show ?thesis
    using assms nth_mod_in_set [of "eligible lb ex"]
    by (auto simp: select_excluding_def Let_def split: if_splits)
qed (use assms nth_mod_in_set [of "eligible lb ex"] in
      \<open>auto simp: select_excluding_def Let_def split: if_splits\<close>)

lemma select_excluding_None:
  "fst (select_excluding lb ex) = None \<longleftrightarrow> eligible lb ex = []"
  by (cases "algorithm lb")
    (auto simp: select_excluding_def least_conn_select_def Let_def split: if_splits)

text \<open>Selecting changes at most the round-robin counter.\<close>

lemma select_excluding_frame:
  "\<exists>c. snd (select_excluding lb ex) = lb\<lparr>rr_counter := c\<rparr>"
proof -
  have triv: "\<exists>c. lb = lb\<lparr>rr_counter := c\<rparr>"
    by (rule exI [of _ "rr_counter lb"]) simp
  then show ?thesis
    by (cases "algorithm lb") (auto simp: select_excluding_def Let_def)
qed

lemma available_counter [simp]: "available (lb\<lparr>rr_counter := c\<rparr>) = available lb"
  by (simp add: available_def fun_eq_iff)

lemma lb_addr_counter [simp]: "lb_addr (lb\<lparr>rr_counter := c\<rparr>) = lb_addr lb"
  by (simp add: lb_addr_def fun_eq_iff)

interpretation lb: selector select_excluding available lb_addr
proof
  fix lb ex i lb'
  show "select_excluding lb ex = (Some i, lb') \<Longrightarrow> available lb i \<and> lb_addr lb i \<notin> set ex"
    using select_excluding_in [of lb ex i lb'] by (simp add: set_eligible)
  show "select_excluding lb ex = (None, lb') \<Longrightarrow> available lb i \<Longrightarrow> lb_addr lb i \<in> set ex"
    using select_excluding_None [of lb ex] set_eligible [of lb ex] by force
  obtain c where "snd (select_excluding lb ex) = lb\<lparr>rr_counter := c\<rparr>"
    using select_excluding_frame by blast
  then show "available (snd (select_excluding lb ex)) = available lb"
    and "lb_addr (snd (select_excluding lb ex)) = lb_addr lb"
    by simp_all
qed

section \<open>Cyclic selection\<close>

text \<open>Stepping once round a list visits every position exactly once, wherever one starts.\<close>

lemma one_cycle: "map (\<lambda>k. xs ! ((c + k) mod length xs)) [0..<length xs] = rotate c xs"
  by (rule nth_equalityI) (simp_all add: nth_rotate add.commute)

lemma cycles_count:
  assumes "xs \<noteq> []"
  shows "count_list (map (\<lambda>k. xs ! ((c + k) mod length xs)) [0..<q * length xs]) x = q * count_list xs x"
proof (induction q)
  case (Suc q)
  let ?n = "length xs"
  have "[0..<Suc q * ?n] = [0..<q * ?n] @ map (\<lambda>k. q * ?n + k) [0..<?n]"
    using upt_add_eq_append [of 0 "q * ?n" ?n] map_add_upt [of "q * ?n" ?n]
    by (simp add: add.commute)
  then have "map (\<lambda>k. xs ! ((c + k) mod ?n)) [0..<Suc q * ?n]
      = map (\<lambda>k. xs ! ((c + k) mod ?n)) [0..<q * ?n] @ map (\<lambda>k. xs ! ((c + q * ?n + k) mod ?n)) [0..<?n]"
    by (simp add: add.assoc)
  also have "map (\<lambda>k. xs ! ((c + q * ?n + k) mod ?n)) [0..<?n] = rotate (c + q * ?n) xs"
    by (rule one_cycle)
  finally have "count_list (map (\<lambda>k. xs ! ((c + k) mod ?n)) [0..<Suc q * ?n]) x
      = q * count_list xs x + count_list (rotate (c + q * ?n) xs) x"
    by (simp only: count_list_append Suc.IH)
  also have "count_list (rotate (c + q * ?n) xs) x = count_list xs x"
    by (metis add.commute append_take_drop_id count_list_append rotate_drop_take)
  finally show ?case by simp
qed simp

text \<open>The list a round-robin balancer steps through.\<close>

definition cycle :: "load_balancer \<Rightarrow> nat list" where
  "cycle lb = (if algorithm lb = WeightedRoundRobin then expand lb (eligible lb []) else eligible lb [])"

lemma cycle_counter [simp]: "cycle (lb\<lparr>rr_counter := c\<rparr>) = cycle lb"
  by (simp add: cycle_def eligible_def expand_def)

lemma select_cycle:
  assumes "algorithm lb \<in> {RoundRobin, WeightedRoundRobin}" and "cycle lb \<noteq> []"
  shows "select lb = (Some (cycle lb ! (unat (rr_counter lb) mod length (cycle lb))),
                      lb\<lparr>rr_counter := rr_counter lb + 1\<rparr>)"
  using assms by (auto simp: select_def select_excluding_def cycle_def Let_def split: if_splits)

lemma select_many_cycle:
  assumes "algorithm lb \<in> {RoundRobin, WeightedRoundRobin}" and "cycle lb \<noteq> []"
    and "unat (rr_counter lb) + n \<le> 2 ^ 64"
  shows "select_many n lb
       = map (\<lambda>k. Some (cycle lb ! ((unat (rr_counter lb) + k) mod length (cycle lb)))) [0..<n]"
  using assms
proof (induction n arbitrary: lb)
  case (Suc n)
  let ?lb = "lb\<lparr>rr_counter := rr_counter lb + 1\<rparr>"
  have up: "[0..<Suc n] = 0 # map Suc [0..<n]" by (simp add: upt_conv_Cons map_Suc_upt)
  show ?case
  proof (cases n)
    case 0
    with Suc.prems show ?thesis by (simp add: select_cycle)
  next
    case (Suc m)
    then have "unat (rr_counter lb + 1) = unat (rr_counter lb) + 1"
      using Suc.prems(3) by (simp add: unat_word_ariths)
    then have "select_many n ?lb
        = map (\<lambda>k. Some (cycle lb ! ((unat (rr_counter lb) + Suc k) mod length (cycle lb)))) [0..<n]"
      using Suc.IH [of ?lb] Suc.prems by simp
    then show ?thesis
      using Suc.prems by (simp add: select_cycle up comp_def del: upt_Suc)
  qed
qed simp

lemma count_list_map_Some: "count_list (map Some xs) (Some x) = count_list xs x"
  by (induction xs) auto

lemma count_expand: "distinct hs \<Longrightarrow> count_list (expand lb hs) i
   = (if i \<in> set hs then unat (max (rt_weight (lb_upstreams lb ! i)) 1) else 0)"
proof (induction hs)
  case (Cons h hs)
  have "count_list (replicate n h) i = (if h = i then n else 0)" for n
    by (induction n) auto
  with Cons show ?case by (auto simp: expand_def)
qed (simp add: expand_def)

lemma count_distinct: "distinct xs \<Longrightarrow> count_list xs x = (if x \<in> set xs then 1 else 0)"
  by (induction xs) auto

lemma select_sticky_hit:
  assumes "available lb i" "lb_addr lb i = v"
  shows "\<exists>j. select_sticky lb (Some v) = (Some j, lb) \<and> available lb j \<and> lb_addr lb j = v"
proof (cases "find (\<lambda>i. healthy (lb_upstreams lb ! i) \<and> rt_address (lb_upstreams lb ! i) = v)
    [0..<length (lb_upstreams lb)]")
  case None
  with assms show ?thesis by (auto simp: available_def lb_addr_def find_None_iff)
next
  case (Some j)
  then have "available lb j" "lb_addr lb j = v"
    by (auto simp: find_Some_iff available_def lb_addr_def)
  with Some show ?thesis by (auto simp: select_sticky_def)
qed

lemma select_sticky_miss:
  assumes "\<And>i. available lb i \<Longrightarrow> lb_addr lb i \<noteq> v"
  shows "select_sticky lb (Some v) = select_excluding lb []"
proof -
  have "find (\<lambda>i. healthy (lb_upstreams lb ! i) \<and> rt_address (lb_upstreams lb ! i) = v)
    [0..<length (lb_upstreams lb)] = None"
    using assms by (auto simp: find_None_iff available_def lb_addr_def)
  then show ?thesis by (simp add: select_sticky_def)
qed

section \<open>Properties\<close>

text \<open>C8. Selection is sound and complete for every algorithm: a returned upstream is a healthy
  member of the pool whose address is not excluded, nothing is returned only when no such upstream
  exists, and only the round-robin counter changes.\<close>

theorem select_excluding_contract:
  "(case select_excluding lb ex of
      (Some i, lb') \<Rightarrow> available lb i \<and> lb_addr lb i \<notin> set ex
    | (None, lb') \<Rightarrow> \<not> (\<exists>i. available lb i \<and> lb_addr lb i \<notin> set ex))
   \<and> (\<exists>c. snd (select_excluding lb ex) = lb\<lparr>rr_counter := c\<rparr>)"
  using lb.sel_Some [of lb ex] lb.sel_None [of lb ex] select_excluding_frame [of lb ex]
  by (auto split: prod.split option.split)

text \<open>C14. Weighted round robin is exactly proportional: while the pool does not change and the
  counter does not wrap, \<open>q\<close> rounds of total-weight selections choose every healthy upstream
  exactly \<open>q\<close> times its weight (a weight of 0 counts as 1), starting from any counter value.\<close>

theorem weighted_round_robin_fair:
  assumes "algorithm lb = WeightedRoundRobin" and "eligible lb [] \<noteq> []"
    and "unat (rr_counter lb) + q * length (expand lb (eligible lb [])) \<le> 2 ^ 64"
  shows "count_list (select_many (q * length (expand lb (eligible lb []))) lb) (Some i)
       = (if available lb i then q * unat (max (rt_weight (lb_upstreams lb ! i)) 1) else 0)"
proof -
  have c: "cycle lb = expand lb (eligible lb [])" using assms(1) by (simp add: cycle_def)
  have "select_many (q * length (cycle lb)) lb
      = map Some (map (\<lambda>k. cycle lb ! ((unat (rr_counter lb) + k) mod length (cycle lb))) [0..<q * length (cycle lb)])"
    using select_many_cycle [of lb] assms by (simp add: c)
  then show ?thesis
    using cycles_count [of "cycle lb"] assms(2)
    by (simp add: c count_list_map_Some count_expand distinct_eligible set_eligible del: map_map)
qed

text \<open>Plain round robin is exactly even: under the same conditions, \<open>q\<close> rounds over the healthy
  upstreams choose each of them exactly \<open>q\<close> times.\<close>

theorem round_robin_fair:
  assumes "algorithm lb = RoundRobin" and "eligible lb [] \<noteq> []"
    and "unat (rr_counter lb) + q * length (eligible lb []) \<le> 2 ^ 64"
  shows "count_list (select_many (q * length (eligible lb [])) lb) (Some i) = (if available lb i then q else 0)"
proof -
  have c: "cycle lb = eligible lb []" using assms(1) by (simp add: cycle_def)
  have "select_many (q * length (cycle lb)) lb
      = map Some (map (\<lambda>k. cycle lb ! ((unat (rr_counter lb) + k) mod length (cycle lb))) [0..<q * length (cycle lb)])"
    using select_many_cycle [of lb] assms by (simp add: c)
  then show ?thesis
    using cycles_count [of "cycle lb"] assms(2)
    by (simp add: c count_list_map_Some count_distinct distinct_eligible set_eligible del: map_map)
qed

text \<open>Least connections returns an upstream with the fewest active connections among all that are
  healthy and not excluded.\<close>

theorem least_connections_minimal:
  assumes "algorithm lb = LeastConnections" and "select_excluding lb ex = (Some i, lb')"
    and "available lb j" and "lb_addr lb j \<notin> set ex"
  shows "conns lb i \<le> conns lb j"
proof -
  have "j \<in> set (eligible lb ex)" using assms(3,4) by (simp add: set_eligible)
  with assms(1,2) show ?thesis
    by (auto simp: select_excluding_def least_conn_select_def conns_def Let_def
        dest: min_by_key_Some split: if_splits)
qed

text \<open>Power of two choices compares two different upstreams: from an even counter (the counter
  starts at 0 and every selection keeps it even, so \<open>base + 1\<close> never overflows), with at least two
  candidates the result is the less loaded of two distinct healthy candidates, and the counter is
  even again.\<close>

theorem p2c_picks_less_loaded:
  assumes "algorithm lb = PowerOfTwoChoices" and "even (unat (rr_counter lb))"
    and "2 \<le> length (eligible lb ex)" and "select_excluding lb ex = (Some i, lb')"
  shows "even (unat (rr_counter lb'))
       \<and> (\<exists>j. j \<noteq> i \<and> available lb j \<and> lb_addr lb j \<notin> set ex \<and> conns lb i \<le> conns lb j)"
proof -
  let ?hs = "eligible lb ex" and ?c = "rr_counter lb"
  let ?a = "unat ?c mod length ?hs" and ?b = "unat (?c + 1) mod length ?hs"
  have "odd (2 ^ 64 - 1 :: nat)" by simp
  then have "unat ?c \<noteq> 2 ^ 64 - 1" using assms(2) by metis
  moreover have "unat ?c < 2 ^ 64" using unat_bound [of ?c] by simp
  ultimately have b: "unat (?c + 1) = unat ?c + 1" by (simp add: unat_word_ariths)
  have "?a \<noteq> ?b" using assms(3) b by (auto simp: mod_Suc split: if_splits)
  moreover have "?a < length ?hs" "?b < length ?hs" using assms(3) by (auto intro: mod_less_divisor)
  ultimately have d: "?hs ! ?a \<noteq> ?hs ! ?b" "?hs ! ?a \<in> set ?hs" "?hs ! ?b \<in> set ?hs"
    using distinct_eligible [of lb ex] by (auto simp: nth_eq_iff_index_eq)
  have sel: "lb' = lb\<lparr>rr_counter := ?c + 2\<rparr>"
    "i = (if conns lb (?hs ! ?a) \<le> conns lb (?hs ! ?b) then ?hs ! ?a else ?hs ! ?b)"
    using assms by (auto simp: select_excluding_def conns_def Let_def split: if_splits)
  have "even (unat (?c + 2))"
    using assms(2) by (simp add: unat_word_ariths dvd_mod_iff)
  moreover have "\<exists>j. j \<noteq> i \<and> j \<in> set ?hs \<and> conns lb i \<le> conns lb j"
    using d sel(2) by (auto split: if_splits intro: exI [of _ "?hs ! ?a"] exI [of _ "?hs ! ?b"])
  ultimately show ?thesis using sel(1) by (auto simp: set_eligible)
qed

text \<open>Sticky sessions hold: when some healthy upstream has the cookie's address, the selected
  upstream is healthy and has that address, and the balancer's state does not change; otherwise the
  selection is the ordinary one.\<close>

theorem select_sticky_affinity:
  "(if \<exists>i. available lb i \<and> lb_addr lb i = v
    then (\<exists>i. select_sticky lb (Some v) = (Some i, lb) \<and> available lb i \<and> lb_addr lb i = v)
    else select_sticky lb (Some v) = select_excluding lb [])"
proof (cases "\<exists>i. available lb i \<and> lb_addr lb i = v")
  case True
  then show ?thesis using select_sticky_hit [of lb _ v] by auto
next
  case False
  then show ?thesis using select_sticky_miss [of lb v] by auto
qed

section \<open>Witnesses\<close>

text \<open>A pool of three upstreams with weights 1, 2 and 1, the last of them down.\<close>

definition pool_example :: "load_balancing_algorithm \<Rightarrow> load_balancer" where
  "pool_example algo =
     update_upstream 2 (set_healthy False)
       (update_upstream 0 inc_connections
         (from_upstreams [\<lparr>address = ''http://a'', weight = 1\<rparr>, \<lparr>address = ''http://b'', weight = 2\<rparr>,
                          \<lparr>address = ''http://c'', weight = 1\<rparr>] algo))"

lemma eligible_example: "eligible (pool_example algo) [] = [0, 1]"
  by (simp add: pool_example_def eligible_def from_upstreams_def upstream_runtime_new_def
      update_upstream_def set_healthy_def inc_connections_def upt_rec)

lemma replicate_two: "replicate 2 x = [x, x]"
  by (simp add: numeral_2_eq_2)

lemma expand_example: "expand (pool_example algo) [0, 1] = [0, 1, 1]"
  by (simp add: pool_example_def expand_def from_upstreams_def upstream_runtime_new_def
      update_upstream_def set_healthy_def inc_connections_def replicate_two)

lemma pool_example_simps [simp]:
  "algorithm (pool_example algo) = algo" "rr_counter (pool_example algo) = 0"
  by (simp_all add: pool_example_def from_upstreams_def update_upstream_def)

theorem weighted_round_robin_fair_witness:
  "count_list (select_many (5 * length (expand (pool_example WeightedRoundRobin)
        (eligible (pool_example WeightedRoundRobin) []))) (pool_example WeightedRoundRobin)) (Some 1)
     = (if available (pool_example WeightedRoundRobin) 1
        then 5 * unat (max (rt_weight (lb_upstreams (pool_example WeightedRoundRobin) ! 1)) 1) else 0)"
  by (rule weighted_round_robin_fair) (simp_all add: eligible_example expand_example [simplified])

theorem round_robin_fair_witness:
  "count_list (select_many (7 * length (eligible (pool_example RoundRobin) [])) (pool_example RoundRobin)) (Some 0)
     = (if available (pool_example RoundRobin) 0 then 7 else 0)"
  by (rule round_robin_fair) (simp_all add: eligible_example)

lemma select_example:
  "select_excluding (pool_example LeastConnections) [] = (Some 1, pool_example LeastConnections)"
  "select_excluding (pool_example PowerOfTwoChoices) []
     = (Some 1, (pool_example PowerOfTwoChoices)\<lparr>rr_counter := 2\<rparr>)"
  by (simp_all add: select_excluding_def eligible_example least_conn_select_def)
    (simp_all add: pool_example_def from_upstreams_def upstream_runtime_new_def
      update_upstream_def set_healthy_def inc_connections_def)

theorem least_connections_minimal_witness:
  "conns (pool_example LeastConnections) 1 \<le> conns (pool_example LeastConnections) 0"
proof -
  have "0 \<in> set (eligible (pool_example LeastConnections) [])" by (simp add: eligible_example)
  then have "available (pool_example LeastConnections) 0" by (simp add: set_eligible)
  then show ?thesis
    using least_connections_minimal [OF _ select_example(1), of 0] by simp
qed

theorem p2c_picks_less_loaded_witness:
  "even (unat (rr_counter ((pool_example PowerOfTwoChoices)\<lparr>rr_counter := 2\<rparr>)))
   \<and> (\<exists>j. j \<noteq> 1 \<and> available (pool_example PowerOfTwoChoices) j
        \<and> lb_addr (pool_example PowerOfTwoChoices) j \<notin> set []
        \<and> conns (pool_example PowerOfTwoChoices) 1 \<le> conns (pool_example PowerOfTwoChoices) j)"
  by (rule p2c_picks_less_loaded [OF _ _ _ select_example(2)]) (simp_all add: eligible_example)

end
