(* ===== verification/Router.thy ===== *)
theory Router
  imports LoadBalancer "HOL-Library.Sublist"
begin

text \<open>
  The route table of \<open>src/router.rs\<close>. An \<open>Arc<LoadBalancer>\<close> is an index into the store of
  balancers that \<open>from_config\<close> allocates, so that the requests and the health checker that hold the
  same \<open>Arc\<close> see the same counters and flags.
\<close>

section \<open>Definitions\<close>

type_synonym lb_ref = nat

record route =
  route_prefix :: string
  route_lb :: lb_ref

record router =
  router_routes :: "route list"
  router_default :: "lb_ref option"

definition normalize_prefix :: "string \<Rightarrow> string" where
  "normalize_prefix p = (if p = [] then ''/'' else p)"

definition path_matches :: "string \<Rightarrow> string \<Rightarrow> bool" where
  "path_matches path pre =
     (if pre = ''/'' then True
      else path = pre \<or> starts_with path (trim_end_matches (CHR ''/'') pre @ ''/''))"

text \<open>The balancer of a configured route: its own algorithm, or the global one.\<close>

definition route_balancer :: "config \<Rightarrow> route_config \<Rightarrow> load_balancer" where
  "route_balancer c r =
     from_upstreams (route_upstreams r)
       (case route_load_balancing r of Some a \<Rightarrow> a | None \<Rightarrow> load_balancing c)"

text \<open>
  \<open>Router::from_config\<close>: one balancer per route in the order of the configuration, the default
  balancer after them; the table is sorted by descending prefix length with a stable sort.
\<close>

definition router_from_config :: "config \<Rightarrow> router \<times> load_balancer list" where
  "router_from_config c =
     (let rs = map (\<lambda>(i, r). \<lparr>route_prefix = normalize_prefix (path_prefix r), route_lb = i\<rparr>)
                 (enumerate 0 (routes c));
          store = map (route_balancer c) (routes c);
          rs = sort_key (\<lambda>r. - int (length (route_prefix r))) rs
      in if upstreams c \<noteq> []
         then (\<lparr>router_routes = rs, router_default = Some (length store)\<rparr>, store @ [lb_from_config c])
         else (\<lparr>router_routes = rs, router_default = None\<rparr>, store))"

definition resolve :: "router \<Rightarrow> string \<Rightarrow> lb_ref option" where
  "resolve rt path =
     (case find (\<lambda>r. path_matches path (route_prefix r)) (router_routes rt) of
        Some r \<Rightarrow> Some (route_lb r)
      | None \<Rightarrow> router_default rt)"

definition all_lbs :: "router \<Rightarrow> lb_ref list" where
  "all_lbs rt =
     map route_lb (router_routes rt) @ (case router_default rt of None \<Rightarrow> [] | Some d \<Rightarrow> [d])"

section \<open>Matching\<close>

lemma path_matches_iff:
  "path_matches path p \<longleftrightarrow>
     p = ''/'' \<or> path = p \<or> (\<exists>rest. path = trim_end_matches (CHR ''/'') p @ CHR ''/'' # rest)"
  by (auto simp: path_matches_def starts_with_iff)

lemma segments_prefix_iff:
  "prefix (split c p) (split c path) \<longleftrightarrow> path = p \<or> (\<exists>rest. path = p @ c # rest)"
proof
  assume "prefix (split c p) (split c path)"
  then obtain qs where qs: "split c path = split c p @ qs" by (rule prefixE)
  show "path = p \<or> (\<exists>rest. path = p @ c # rest)"
  proof (cases "qs = []")
    case True
    then show ?thesis using qs by (metis append_Nil2 join_split)
  next
    case False
    then have "join c (split c path) = join c (split c p) @ c # join c qs"
      by (simp add: qs join_append)
    then show ?thesis by (simp add: join_split)
  qed
next
  assume "path = p \<or> (\<exists>rest. path = p @ c # rest)"
  then show "prefix (split c p) (split c path)" by (auto simp: split_append2)
qed

section \<open>The table\<close>

lemma find_first_max:
  assumes "sorted (map f xs)" and "find P xs = Some x"
  shows "x \<in> set xs \<and> P x \<and> (\<forall>y \<in> set xs. P y \<longrightarrow> f x \<le> (f y :: 'b::linorder))"
  using assms by (induction xs) (auto split: if_splits)

text \<open>The entries of the table are the configured routes with the positions of their balancers.\<close>

lemma set_router_routes:
  "set (router_routes (fst (router_from_config c)))
     = {\<lparr>route_prefix = normalize_prefix (path_prefix (routes c ! i)), route_lb = i\<rparr> | i. i < length (routes c)}"
proof -
  have "map (\<lambda>(i, r). \<lparr>route_prefix = normalize_prefix (path_prefix r), route_lb = i\<rparr>) (enumerate 0 (routes c))
      = map (\<lambda>i. \<lparr>route_prefix = normalize_prefix (path_prefix (routes c ! i)), route_lb = i\<rparr>)
          [0..<length (routes c)]"
    by (rule nth_equalityI) (simp_all add: nth_enumerate_eq)
  then show ?thesis by (auto simp: router_from_config_def Let_def)
qed

lemma router_routes_sorted:
  "sorted (map (\<lambda>r. - int (length (route_prefix r))) (router_routes (fst (router_from_config c))))"
  by (simp add: router_from_config_def Let_def)

lemma router_store:
  "snd (router_from_config c)
     = map (route_balancer c) (routes c) @ (if upstreams c \<noteq> [] then [lb_from_config c] else [])"
  by (simp add: router_from_config_def Let_def)

lemma router_default_eq:
  "router_default (fst (router_from_config c)) = (if upstreams c \<noteq> [] then Some (length (routes c)) else None)"
  by (simp add: router_from_config_def Let_def)

text \<open>The route that decides a request: one that matches, with a prefix of maximal length.\<close>

definition best_route :: "config \<Rightarrow> string \<Rightarrow> route_config \<Rightarrow> bool" where
  "best_route c path r \<longleftrightarrow>
     r \<in> set (routes c) \<and> path_matches path (normalize_prefix (path_prefix r))
     \<and> (\<forall>r' \<in> set (routes c). path_matches path (normalize_prefix (path_prefix r')) \<longrightarrow>
          length (normalize_prefix (path_prefix r')) \<le> length (normalize_prefix (path_prefix r)))"

lemma resolve_route:
  assumes "find (\<lambda>r. path_matches path (route_prefix r)) (router_routes (fst (router_from_config c))) = Some e"
  shows "best_route c path (routes c ! route_lb e) \<and> route_lb e < length (routes c)"
proof -
  let ?rs = "router_routes (fst (router_from_config c))"
  have e: "e \<in> set ?rs" "path_matches path (route_prefix e)"
    and max: "\<And>y. y \<in> set ?rs \<Longrightarrow> path_matches path (route_prefix y)
                \<Longrightarrow> length (route_prefix y) \<le> length (route_prefix e)"
    using find_first_max [OF router_routes_sorted assms] by auto
  obtain i where i: "i < length (routes c)"
    "e = \<lparr>route_prefix = normalize_prefix (path_prefix (routes c ! i)), route_lb = i\<rparr>"
    using e(1) by (auto simp: set_router_routes)
  have "length (normalize_prefix (path_prefix r')) \<le> length (route_prefix e)"
    if r': "r' \<in> set (routes c)" "path_matches path (normalize_prefix (path_prefix r'))" for r'
  proof -
    obtain j where "j < length (routes c)" "r' = routes c ! j" using r'(1) by (auto simp: in_set_conv_nth)
    then have "\<lparr>route_prefix = normalize_prefix (path_prefix r'), route_lb = j\<rparr> \<in> set ?rs"
      by (auto simp: set_router_routes)
    from max [OF this] r'(2) show ?thesis by simp
  qed
  with i e(2) show ?thesis by (auto simp: best_route_def)
qed

lemma resolve_no_route:
  "find (\<lambda>r. path_matches path (route_prefix r)) (router_routes (fst (router_from_config c))) = None
     \<longleftrightarrow> (\<forall>r \<in> set (routes c). \<not> path_matches path (normalize_prefix (path_prefix r)))"
proof -
  let ?rs = "set (router_routes (fst (router_from_config c)))"
  have "(\<forall>e \<in> ?rs. \<not> path_matches path (route_prefix e))
      \<longleftrightarrow> (\<forall>i < length (routes c). \<not> path_matches path (normalize_prefix (path_prefix (routes c ! i))))"
    unfolding set_router_routes by auto
  also have "\<dots> \<longleftrightarrow> (\<forall>r \<in> set (routes c). \<not> path_matches path (normalize_prefix (path_prefix r)))"
    by (simp add: all_set_conv_all_nth)
  finally show ?thesis by (simp add: find_None_iff Ball_def)
qed

lemma resolve_spec:
  assumes "router_from_config c = (rt, store)"
  shows "case resolve rt path of
           Some l \<Rightarrow> l < length store
             \<and> ((\<exists>r. best_route c path r \<and> store ! l = route_balancer c r)
                \<or> ((\<forall>r \<in> set (routes c). \<not> path_matches path (normalize_prefix (path_prefix r)))
                   \<and> upstreams c \<noteq> [] \<and> store ! l = lb_from_config c))
         | None \<Rightarrow> upstreams c = []
             \<and> (\<forall>r \<in> set (routes c). \<not> path_matches path (normalize_prefix (path_prefix r)))"
proof (cases "find (\<lambda>r. path_matches path (route_prefix r)) (router_routes (fst (router_from_config c)))")
  case None
  then show ?thesis
    using resolve_no_route [of path c] router_store [of c] router_default_eq [of c] assms
    by (auto simp: resolve_def nth_append)
next
  case (Some e)
  then show ?thesis
    using resolve_route [OF Some] router_store [of c] assms
    by (auto simp: resolve_def nth_append)
qed

section \<open>Properties\<close>

text \<open>C1. Routing is longest-prefix matching, whatever the order of the configuration: a request
  whose path some route matches goes to the balancer of a matching route with the longest prefix; one
  that none matches goes to the default pool if there is one, and is unrouted exactly when there is
  none.\<close>

theorem resolve_longest_prefix:
  assumes "router_from_config c = (rt, store)"
  shows "case resolve rt path of
           Some l \<Rightarrow> l < length store
             \<and> ((\<exists>r. best_route c path r \<and> store ! l = route_balancer c r)
                \<or> ((\<forall>r \<in> set (routes c). \<not> path_matches path (normalize_prefix (path_prefix r)))
                   \<and> upstreams c \<noteq> [] \<and> store ! l = lb_from_config c))
         | None \<Rightarrow> upstreams c = []
             \<and> (\<forall>r \<in> set (routes c). \<not> path_matches path (normalize_prefix (path_prefix r)))"
  by (rule resolve_spec [OF assms])


section \<open>Witnesses\<close>

definition router_example :: config where
  "router_example =
     (default_config unspecified_addr unspecified_addr)
       \<lparr>upstreams := [\<lparr>address = ''http://127.0.0.1:8081'', weight = 1\<rparr>],
        routes := [\<lparr>path_prefix = ''/api'', route_upstreams = [\<lparr>address = ''http://127.0.0.1:9001'', weight = 1\<rparr>],
                    route_load_balancing = Some LeastConnections\<rparr>]\<rparr>"

theorem resolve_longest_prefix_witness:
  "case resolve (fst (router_from_config router_example)) ''/api/users'' of
     Some l \<Rightarrow> l < length (snd (router_from_config router_example))
       \<and> ((\<exists>r. best_route router_example ''/api/users'' r
              \<and> snd (router_from_config router_example) ! l = route_balancer router_example r)
          \<or> ((\<forall>r \<in> set (routes router_example). \<not> path_matches ''/api/users'' (normalize_prefix (path_prefix r)))
             \<and> upstreams router_example \<noteq> []
             \<and> snd (router_from_config router_example) ! l = lb_from_config router_example))
   | None \<Rightarrow> upstreams router_example = []
       \<and> (\<forall>r \<in> set (routes router_example). \<not> path_matches ''/api/users'' (normalize_prefix (path_prefix r)))"
  by (rule resolve_longest_prefix) simp


end
