(* ===== verification/RateLimit.thy ===== *)
theory RateLimit
  imports Time Net
begin

text \<open>
  The per-IP rate limiter of \<open>src/ratelimit.rs\<close>. The concurrent map of buckets is a map from
  addresses to theoretical arrival times (TAT); \<open>check\<close> holds the bucket's shard lock from the
  lookup to the update, so one call is one atomic step. The reading of the clock is an argument,
  and \<open>None\<close> is a panic.
\<close>

section \<open>Definitions\<close>

record rate_limit_config =
  rate :: u32
  window :: duration
  burst :: f64

definition from_rps :: "u32 \<Rightarrow> f64 \<Rightarrow> rate_limit_config" where
  "from_rps rps b = \<lparr>rate = max rps 1, window = from_secs 1, burst = f64_max b (Fin 1)\<rparr>"

record rate_limiter =
  rl_cfg :: rate_limit_config
  buckets :: "ip_addr \<rightharpoonup> instant"
  emission :: duration
  rl_rejects :: u64
  rl_allows :: u64

definition rate_limiter_new :: "rate_limit_config \<Rightarrow> rate_limiter" where
  "rate_limiter_new cfg =
     \<lparr>rl_cfg = cfg, buckets = Map.empty,
      emission = window cfg div unat (max (rate cfg) 1), rl_rejects = 0, rl_allows = 0\<rparr>"

definition max_credit :: "rate_limiter \<Rightarrow> duration option" where
  "max_credit rl =
     mul_f64 (emission rl)
       (f64_max (f64_sub (f64_mul (f64_of_u32 (rate (rl_cfg rl))) (burst (rl_cfg rl))) (Fin 1)) (Fin 0))"

definition check :: "rate_limiter \<Rightarrow> instant \<Rightarrow> ip_addr \<Rightarrow> (bool \<times> rate_limiter) option" where
  "check rl now ip =
     (case max_credit rl of
        None \<Rightarrow> None
      | Some credit \<Rightarrow>
          (let tat = (case buckets rl ip of None \<Rightarrow> now | Some t \<Rightarrow> t);
               rl = rl\<lparr>buckets := (buckets rl)(ip \<mapsto> tat)\<rparr>
           in case instant_add now credit of
                None \<Rightarrow> None
              | Some limit \<Rightarrow>
                  if limit < tat then Some (False, rl\<lparr>rl_rejects := rl_rejects rl + 1\<rparr>)
                  else (case instant_add (if tat > now then tat else now) (emission rl) of
                          None \<Rightarrow> None
                        | Some new_tat \<Rightarrow>
                            Some (True, rl\<lparr>buckets := (buckets rl)(ip \<mapsto> new_tat),
                                           rl_allows := rl_allows rl + 1\<rparr>))))"

definition cleanup :: "rate_limiter \<Rightarrow> instant \<Rightarrow> duration \<Rightarrow> rate_limiter" where
  "cleanup rl now max_idle =
     rl\<lparr>buckets := (\<lambda>ip. case buckets rl ip of
          None \<Rightarrow> None
        | Some tat \<Rightarrow> if duration_since now tat < max_idle + window (rl_cfg rl) then Some tat else None)\<rparr>"

text \<open>A sequence of calls, in the order in which they take the shard lock, with their results.\<close>

fun check_all :: "rate_limiter \<Rightarrow> (instant \<times> ip_addr) list \<Rightarrow> (bool list \<times> rate_limiter) option" where
  "check_all rl [] = Some ([], rl)"
| "check_all rl ((now, ip) # es) =
     (case check rl now ip of
        None \<Rightarrow> None
      | Some (ok, rl') \<Rightarrow>
          (case check_all rl' es of
             None \<Rightarrow> None
           | Some (oks, rl'') \<Rightarrow> Some (ok # oks, rl'')))"

text \<open>How many of the calls for one address were allowed.\<close>

definition allowed_for :: "ip_addr \<Rightarrow> (instant \<times> ip_addr) list \<Rightarrow> bool list \<Rightarrow> nat" where
  "allowed_for ip es oks = length (filter (\<lambda>((now, i), ok). i = ip \<and> ok) (zip es oks))"

section \<open>One call\<close>

lemma check_fields:
  assumes "check rl now ip = Some (ok, rl')"
  shows "rl_cfg rl' = rl_cfg rl" "emission rl' = emission rl" "max_credit rl' = max_credit rl"
    and "\<And>i. i \<noteq> ip \<Longrightarrow> buckets rl' i = buckets rl i"
  using assms
  by (auto simp: check_def max_credit_def Let_def split: option.splits if_splits)

lemma check_allowed:
  assumes "check rl now ip = Some (True, rl')" and "max_credit rl = Some credit"
  shows "(case buckets rl ip of None \<Rightarrow> True | Some tat \<Rightarrow> tat \<le> now + credit)"
    and "buckets rl' ip = Some (max now (case buckets rl ip of None \<Rightarrow> now | Some tat \<Rightarrow> tat) + emission rl)"
  using assms
  by (auto simp: check_def instant_add_def max_def Let_def split: option.splits if_splits)

lemma check_rejected:
  assumes "check rl now ip = Some (False, rl')" and "max_credit rl = Some credit"
  shows "\<exists>tat. buckets rl ip = Some tat \<and> now + credit < tat"
    and "buckets rl' = buckets rl"
  using assms
  by (auto simp: check_def instant_add_def Let_def fun_upd_idem split: option.splits if_splits)

lemma check_counters:
  assumes "check rl now ip = Some (ok, rl')"
  shows "rl_allows rl' = rl_allows rl + (if ok then 1 else 0)"
    and "rl_rejects rl' = rl_rejects rl + (if ok then 0 else 1)"
  using assms by (auto simp: check_def Let_def split: option.splits if_splits)

section \<open>Sequences of calls\<close>

lemma check_all_Cons:
  assumes "check_all rl ((now, i) # es) = Some (oks, rl2)"
  obtains ok rl1 oks1 where "check rl now i = Some (ok, rl1)"
    and "check_all rl1 es = Some (oks1, rl2)" and "oks = ok # oks1"
  using assms by (auto split: option.splits)

lemma allowed_for_Nil [simp]: "allowed_for ip [] oks = 0"
  by (simp add: allowed_for_def)

lemma allowed_for_Cons [simp]:
  "allowed_for ip ((t, i) # es) (ok # oks) = (if i = ip \<and> ok then 1 else 0) + allowed_for ip es oks"
  by (simp add: allowed_for_def)

text \<open>
  The counting argument behind the limit: when \<open>k\<close> calls were already allowed, the bucket's TAT
  is at least \<open>k\<close> emission intervals past the start of the window.
\<close>

lemma check_all_window:
  assumes "check_all rl es = Some (oks, rl')" and "max_credit rl = Some credit"
    and "\<forall>(t, i) \<in> set es. s \<le> t \<and> t \<le> s + T"
    and "k = 0 \<or> (\<exists>tat. buckets rl ip = Some tat \<and> s + k * emission rl \<le> tat)"
    and "0 < allowed_for ip es oks"
  shows "(k + allowed_for ip es oks - 1) * emission rl \<le> T + credit"
  using assms
proof (induction es arbitrary: rl oks k)
  case Nil
  then show ?case by simp
next
  case (Cons e es)
  obtain t i where e: "e = (t, i)" by force
  obtain ok rl1 oks1 where c: "check rl t i = Some (ok, rl1)"
    and r: "check_all rl1 es = Some (oks1, rl')" and oks: "oks = ok # oks1"
    using Cons.prems(1) unfolding e by (rule check_all_Cons)
  note fld = check_fields [OF c]
  have mc: "max_credit rl1 = Some credit" using fld(3) Cons.prems(2) by simp
  have t: "s \<le> t" "t \<le> s + T" and rest: "\<forall>(t, i) \<in> set es. s \<le> t \<and> t \<le> s + T"
    using Cons.prems(3) by (auto simp: e)
  show ?case
  proof (cases "i = ip \<and> ok")
    case False
    then have b: "buckets rl1 ip = buckets rl ip"
      using fld(4) [of ip] c check_rejected(2) [OF _ Cons.prems(2)] by (cases "i = ip") auto
    have "(k + allowed_for ip es oks1 - 1) * emission rl1 \<le> T + credit"
      by (rule Cons.IH [OF r mc rest]) (use Cons.prems(4,5) False in \<open>auto simp: b fld oks e\<close>)
    then show ?thesis using False by (auto simp: oks e fld)
  next
    case True
    note al = check_allowed [OF _ Cons.prems(2), of t ip rl1]
    have tat: "k = 0 \<or> (\<exists>tat. buckets rl ip = Some tat \<and> s + k * emission rl \<le> tat \<and> tat \<le> t + credit)"
      using Cons.prems(4) al(1) c True by auto
    have b1: "\<exists>tat. buckets rl1 ip = Some tat \<and> s + Suc k * emission rl1 \<le> tat"
      using al(2) c True tat t by (auto simp: fld max_def split: option.splits)
    show ?thesis
    proof (cases "allowed_for ip es oks1")
      case 0
      then show ?thesis using tat t True by (auto simp: oks e)
    next
      case (Suc n)
      have "(Suc k + allowed_for ip es oks1 - 1) * emission rl1 \<le> T + credit"
        by (rule Cons.IH [OF r mc rest]) (use b1 Suc in auto)
      then show ?thesis using True by (simp add: oks e fld)
    qed
  qed
qed

text \<open>A bucket that is free at the time of the call admits it and is then busy for one interval.\<close>

lemma check_free_bucket:
  assumes "max_credit rl = Some credit" and "now + credit \<le> instant_max"
    and "now + emission rl \<le> instant_max"
    and "case buckets rl ip of None \<Rightarrow> True | Some tat \<Rightarrow> tat \<le> now"
  shows "\<exists>rl'. check rl now ip = Some (True, rl') \<and> buckets rl' ip = Some (now + emission rl)"
  using assms by (auto simp: check_def instant_add_def Let_def split: option.splits)

lemma check_all_spaced:
  assumes "check_all rl es = Some (oks, rl')" and "max_credit rl = Some credit"
    and "sorted_wrt (\<lambda>a b. a + emission rl \<le> b) (map fst (filter (\<lambda>(t, i). i = ip) es))"
    and "\<forall>(t, i) \<in> set es. t + emission rl \<le> instant_max \<and> t + credit \<le> instant_max"
    and "case buckets rl ip of None \<Rightarrow> True | Some tat \<Rightarrow> \<forall>(t, i) \<in> set es. i = ip \<longrightarrow> tat \<le> t"
  shows "allowed_for ip es oks = length (filter (\<lambda>(t, i). i = ip) es)"
  using assms
proof (induction es arbitrary: rl oks)
  case Nil
  then show ?case by simp
next
  case (Cons e es)
  obtain t i where e: "e = (t, i)" by force
  obtain ok rl1 oks1 where c: "check rl t i = Some (ok, rl1)"
    and r: "check_all rl1 es = Some (oks1, rl')" and oks: "oks = ok # oks1"
    using Cons.prems(1) unfolding e by (rule check_all_Cons)
  note fld = check_fields [OF c]
  have mc: "max_credit rl1 = Some credit" using fld(3) Cons.prems(2) by simp
  have IH: "allowed_for ip es oks1 = length (filter (\<lambda>(t, i). i = ip) es)"
    if "case buckets rl1 ip of None \<Rightarrow> True | Some tat \<Rightarrow> \<forall>(t, i) \<in> set es. i = ip \<longrightarrow> tat \<le> t"
    by (rule Cons.IH [OF r mc _ _ that]) (use Cons.prems(3,4) in \<open>auto simp: e fld split: if_splits\<close>)
  show ?case
  proof (cases "i = ip")
    case False
    then have b: "buckets rl1 ip = buckets rl ip" using fld(4) [of ip] by simp
    have "allowed_for ip es oks1 = length (filter (\<lambda>(t, i). i = ip) es)"
      by (rule IH) (use Cons.prems(5) in \<open>auto simp: b e split: option.splits\<close>)
    then show ?thesis using False by (simp add: oks e)
  next
    case True
    have free: "case buckets rl ip of None \<Rightarrow> True | Some tat \<Rightarrow> tat \<le> t"
      using Cons.prems(5) True by (auto simp: e split: option.splits)
    from check_free_bucket [OF Cons.prems(2) _ _ free] Cons.prems(4) True c
    have ok: "ok" and b: "buckets rl1 ip = Some (t + emission rl)"
      by (auto simp: e)
    have "allowed_for ip es oks1 = length (filter (\<lambda>(t, i). i = ip) es)"
      by (rule IH) (use Cons.prems(3) True in \<open>force simp: b e\<close>)
    then show ?thesis using True ok by (simp add: oks e)
  qed
qed

lemma check_open_bucket:
  assumes "max_credit rl = Some credit" and "now + credit + emission rl \<le> instant_max"
    and "case buckets rl ip of None \<Rightarrow> True | Some tat \<Rightarrow> tat \<le> now + credit"
  shows "\<exists>rl'. check rl now ip = Some (True, rl')"
  using assms by (auto simp: check_def instant_add_def Let_def split: option.splits)

lemma check_busy_bucket:
  assumes "max_credit rl = Some credit" and "now + credit \<le> instant_max"
    and "buckets rl ip = Some tat" and "now + credit < tat"
  shows "\<exists>rl'. check rl now ip = Some (False, rl')"
  using assms by (simp add: check_def instant_add_def Let_def)

text \<open>
  Calls at one instant: after \<open>j\<close> of them, the bucket stands \<open>m\<close> intervals ahead, where \<open>m\<close>
  counts those allowed.
\<close>

lemma check_all_burst_from:
  assumes "max_credit rl = Some credit" and "now + credit + emission rl \<le> instant_max"
    and "buckets rl ip = Some (now + m * emission rl) \<or> (m = 0 \<and> buckets rl ip = None)"
    and "m = j \<or> (m \<le> j \<and> credit < m * emission rl)"
  shows "\<exists>rl'. check_all rl (replicate k (now, ip))
           = Some (map (\<lambda>n. n * emission rl \<le> credit) [j..<j + k], rl')"
  using assms
proof (induction k arbitrary: rl m j)
  case 0
  then show ?case by simp
next
  case (Suc k)
  let ?e = "emission rl"
  have up: "[j..<j + Suc k] = j # [Suc j..<Suc j + k]" by (simp add: upt_conv_Cons)
  show ?case
  proof (cases "credit < m * ?e")
    case True
    then have "m \<noteq> 0" by (cases m) auto
    with Suc.prems(3) have "buckets rl ip = Some (now + m * ?e)" by simp
    then obtain rl1 where c: "check rl now ip = Some (False, rl1)"
      using check_busy_bucket [OF Suc.prems(1)] Suc.prems(2) True by fastforce
    note fld = check_fields [OF c] and rj = check_rejected(2) [OF c Suc.prems(1)]
    have mj: "m \<le> j" using Suc.prems(4) by auto
    obtain rl' where "check_all rl1 (replicate k (now, ip))
        = Some (map (\<lambda>n. n * emission rl1 \<le> credit) [Suc j..<Suc j + k], rl')"
      using Suc.IH [of rl1 m "Suc j"] Suc.prems True mj by (auto simp: fld rj)
    moreover have "\<not> j * ?e \<le> credit"
      using True mult_le_mono1 [OF mj, of ?e] by linarith
    ultimately show ?thesis using c up by (auto simp: fld simp del: upt_Suc)
  next
    case False
    then have mj: "m = j" using Suc.prems(4) by auto
    have "case buckets rl ip of None \<Rightarrow> True | Some tat \<Rightarrow> tat \<le> now + credit"
      using False Suc.prems(3) by auto
    then obtain rl1 where c: "check rl now ip = Some (True, rl1)"
      using check_open_bucket [OF Suc.prems(1,2)] by blast
    note fld = check_fields [OF c] and al = check_allowed(2) [OF c Suc.prems(1)]
    have b: "buckets rl1 ip = Some (now + Suc m * emission rl1)"
      using al Suc.prems(3) by (auto simp: fld max_def)
    obtain rl' where "check_all rl1 (replicate k (now, ip))
        = Some (map (\<lambda>n. n * emission rl1 \<le> credit) [Suc j..<Suc j + k], rl')"
      using Suc.IH [of rl1 "Suc m" "Suc j"] Suc.prems(1,2) b mj by (auto simp: fld)
    then show ?thesis using c False mj up by (auto simp: fld simp del: upt_Suc)
  qed
qed

section \<open>A concrete limiter\<close>

text \<open>One request per second with a burst factor of 2, as used by the witnesses below.\<close>

definition limiter_1_2 :: rate_limiter where
  "limiter_1_2 = rate_limiter_new \<lparr>rate = 1, window = from_secs 1, burst = Fin 2\<rparr>"

lemma emission_1_2: "emission limiter_1_2 = 10 ^ 9"
  by (simp add: limiter_1_2_def rate_limiter_new_def from_secs_def)

lemma max_credit_1_2: "max_credit limiter_1_2 = Some (10 ^ 9)"
  by (simp add: max_credit_def emission_1_2)
    (simp add: limiter_1_2_def rate_limiter_new_def mul_f64_def f64_of_u32_def as_secs_f64_def
      f64_sub_def f64_max_def round64_small_nat [of 2, simplified] round64_small_nat [of 1, simplified]
      round64_small_nat [of 0, simplified] round_half_even_def duration_max_def)

lemma buckets_1_2: "buckets limiter_1_2 = Map.empty"
  by (simp add: limiter_1_2_def rate_limiter_new_def)

section \<open>Properties\<close>

text \<open>C7. The limit holds in every window: however the calls of all clients interleave and
  whatever the state before, if all calls happen within \<open>T\<close> nanoseconds then an address is
  allowed at most \<open>1 + (T + max_credit) / emission\<close> times.\<close>

theorem rate_limit_window_bound:
  assumes "check_all rl es = Some (oks, rl')" and "max_credit rl = Some credit"
    and "\<forall>(t, i) \<in> set es. s \<le> t \<and> t \<le> s + T"
  shows "(allowed_for ip es oks - 1) * emission rl \<le> T + credit"
  using check_all_window [OF assms, of 0 ip] by (cases "allowed_for ip es oks") auto

text \<open>The burst is exact: of calls at one instant for an address without a bucket, call
  number \<open>j\<close> (from 0) is allowed if and only if \<open>j * emission \<le> max_credit\<close>.\<close>

theorem rate_limit_burst_exact:
  assumes "max_credit rl = Some credit" and "now + credit + emission rl \<le> instant_max"
    and "buckets rl ip = None"
  shows "\<exists>rl'. check_all rl (replicate k (now, ip))
           = Some (map (\<lambda>j. j * emission rl \<le> credit) [0..<k], rl')"
  using check_all_burst_from [OF assms(1,2), of ip 0 0 k] assms(3) by simp

text \<open>C31. A conforming client is never rejected: if the calls for an address are at least one
  emission interval apart, every one of them is allowed, whatever other addresses do in between.\<close>

theorem rate_limit_conforming_client:
  assumes "check_all rl es = Some (oks, rl')" and "max_credit rl = Some credit"
    and "sorted_wrt (\<lambda>a b. a + emission rl \<le> b) (map fst (filter (\<lambda>(t, i). i = ip) es))"
    and "\<forall>(t, i) \<in> set es. t + emission rl \<le> instant_max \<and> t + credit \<le> instant_max"
    and "buckets rl ip = None"
  shows "allowed_for ip es oks = length (filter (\<lambda>(t, i). i = ip) es)"
  by (rule check_all_spaced [OF assms(1-4)]) (simp add: assms(5))


section \<open>Witnesses\<close>

lemma check_1_2_first:
  "\<exists>rl'. check_all limiter_1_2 [(0, V4 1), (0, V4 1), (0, V4 1)] = Some ([True, True, False], rl')"
proof -
  have "\<exists>rl'. check_all limiter_1_2 (replicate 3 (0, V4 1))
           = Some (map (\<lambda>j. j * emission limiter_1_2 \<le> 10 ^ 9) [0..<3], rl')"
    using check_all_burst_from [OF max_credit_1_2, of 0 "V4 1" 0 0 3]
    by (simp add: buckets_1_2 emission_1_2 instant_max_def)
  then show ?thesis by (simp add: emission_1_2 numeral_3_eq_3 upt_rec)
qed

theorem rate_limit_window_bound_witness:
  "\<exists>oks rl'. check_all limiter_1_2 [(0, V4 1), (0, V4 1), (0, V4 1)] = Some (oks, rl')
     \<and> allowed_for (V4 1) [(0, V4 1), (0, V4 1), (0, V4 1)] oks = 2
     \<and> (allowed_for (V4 1) [(0, V4 1), (0, V4 1), (0, V4 1)] oks - 1) * emission limiter_1_2 \<le> 0 + 10 ^ 9"
proof -
  obtain rl' where c: "check_all limiter_1_2 [(0, V4 1), (0, V4 1), (0, V4 1)] = Some ([True, True, False], rl')"
    using check_1_2_first by blast
  from rate_limit_window_bound [OF c max_credit_1_2, of 0 0 "V4 1"] c show ?thesis
    by (intro exI [of _ "[True, True, False]"] exI [of _ rl'] conjI) auto
qed

theorem rate_limit_burst_exact_witness:
  "\<exists>rl'. check_all limiter_1_2 (replicate 3 (7, V4 1))
     = Some (map (\<lambda>j. j * emission limiter_1_2 \<le> 10 ^ 9) [0..<3], rl')"
  by (rule rate_limit_burst_exact [OF max_credit_1_2])
    (simp_all add: buckets_1_2 emission_1_2 instant_max_def)

theorem rate_limit_conforming_client_witness:
  "\<exists>oks rl'. check_all limiter_1_2 [(0, V4 1)] = Some (oks, rl')
     \<and> allowed_for (V4 1) [(0, V4 1)] oks = length (filter (\<lambda>(t, i). i = V4 1) [(0::nat, V4 1)])"
proof -
  obtain rl' where "check limiter_1_2 0 (V4 1) = Some (True, rl')"
    using check_free_bucket [OF max_credit_1_2, of 0 "V4 1"]
    by (auto simp: buckets_1_2 emission_1_2 instant_max_def)
  then have c: "check_all limiter_1_2 [(0, V4 1)] = Some ([True], rl')" by simp
  have "allowed_for (V4 1) [(0, V4 1)] [True] = length (filter (\<lambda>(t, i). i = V4 1) [(0::nat, V4 1)])"
    by (rule rate_limit_conforming_client [OF c max_credit_1_2])
      (simp_all add: buckets_1_2 emission_1_2 instant_max_def)
  with c show ?thesis by blast
qed


end
