(* ===== verification/Security.thy ===== *)
theory Security
  imports Config
begin

text \<open>
  The access-control list and the response-header baseline of \<open>src/security.rs\<close>. A network is
  an address and a prefix length; membership is decided with the same masks on 32- and 128-bit
  words as in the source.
\<close>

unbundle bit_operations_syntax

section \<open>Definitions\<close>

record ip_net =
  net_addr :: ip_addr
  net_prefix :: u8

record acl =
  allow :: "ip_net list"
  deny :: "ip_net list"

text \<open>\<open>!((1 << (bits - prefix)) - 1)\<close>, with the two special cases of the source.\<close>

definition net_mask :: "nat \<Rightarrow> u8 \<Rightarrow> 'a::len word" where
  "net_mask bits prefix =
     (if unat prefix \<ge> bits then - 1
      else if prefix = 0 then 0
      else NOT (push_bit (bits - unat prefix) 1 - 1))"

fun net_contains :: "ip_net \<Rightarrow> ip_addr \<Rightarrow> bool" where
  "net_contains n ip =
     (case (net_addr n, ip) of
        (V4 a, V4 b) \<Rightarrow> (a AND net_mask 32 (net_prefix n)) = (b AND net_mask 32 (net_prefix n))
      | (V6 a, V6 b) \<Rightarrow> (a AND net_mask 128 (net_prefix n)) = (b AND net_mask 128 (net_prefix n))
      | _ \<Rightarrow> False)"

definition parse_cidr :: "string \<Rightarrow> ip_net option" where
  "parse_cidr s =
     (case split_once (CHR ''/'') s of
        Some (ip, pfx) \<Rightarrow> do {
          a \<leftarrow> parse_ip ip;
          p \<leftarrow> parse_u8 pfx;
          Some \<lparr>net_addr = a, net_prefix = p\<rparr>
        }
      | None \<Rightarrow> do {
          a \<leftarrow> parse_ip s;
          Some \<lparr>net_addr = a, net_prefix = (if is_ipv4 a then 32 else 128)\<rparr>
        })"

text \<open>\<open>iter().map(f).collect::<Result<_, _>>()\<close>: all results, or nothing at the first error.\<close>

fun collect_all :: "('a \<Rightarrow> 'b option) \<Rightarrow> 'a list \<Rightarrow> 'b list option" where
  "collect_all f [] = Some []"
| "collect_all f (x # xs) = do { y \<leftarrow> f x; ys \<leftarrow> collect_all f xs; Some (y # ys) }"

definition acl_from_config :: "string list \<Rightarrow> string list \<Rightarrow> acl option" where
  "acl_from_config al dn = do {
     a \<leftarrow> collect_all parse_cidr al;
     d \<leftarrow> collect_all parse_cidr dn;
     Some \<lparr>allow = a, deny = d\<rparr>
   }"

definition is_allowed :: "acl \<Rightarrow> ip_addr \<Rightarrow> bool" where
  "is_allowed l ip =
     (if list_ex (\<lambda>n. net_contains n ip) (deny l) then False
      else if allow l = [] then True
      else list_ex (\<lambda>n. net_contains n ip) (allow l))"

definition security_pairs :: "(string \<times> string) list" where
  "security_pairs =
     [(''X-Content-Type-Options'', ''nosniff''),
      (''X-Frame-Options'', ''SAMEORIGIN''),
      (''Referrer-Policy'', ''strict-origin-when-cross-origin''),
      (''X-XSS-Protection'', ''0''),
      (''Permissions-Policy'', ''geolocation=(), microphone=(), camera=()'')]"

text \<open>A lookup by text goes through the name parser; an invalid name is never present.\<close>

definition contains_key_str :: "'h http_lib \<Rightarrow> 'h \<Rightarrow> string \<Rightarrow> bool" where
  "contains_key_str L h k = (case name_from_bytes L k of None \<Rightarrow> False | Some n \<Rightarrow> hm_contains_key L h n)"

text \<open>One round of the loop of \<open>apply_security_headers\<close>.\<close>

definition insert_if_absent :: "'h http_lib \<Rightarrow> 'h \<Rightarrow> string \<times> string \<Rightarrow> 'h" where
  "insert_if_absent L h kv =
     (if \<not> contains_key_str L h (fst kv)
      then (case (name_from_bytes L (fst kv), value_from_str L (snd kv)) of
              (Some name, Some val) \<Rightarrow> hm_insert L h name val
            | _ \<Rightarrow> h)
      else h)"

definition apply_security_headers :: "'h http_lib \<Rightarrow> 'h \<Rightarrow> 'h" where
  "apply_security_headers L h = foldl (insert_if_absent L) h security_pairs"

section \<open>Masks\<close>

text \<open>Masking with the network mask keeps exactly the leading \<open>prefix\<close> bits.\<close>

lemma net_mask_eq:
  assumes "bits = LENGTH('a::len)"
  shows "(net_mask bits p :: 'a word) = NOT (mask (bits - unat p))"
proof -
  consider "unat p \<ge> bits" | "unat p < bits" "p = 0" | "unat p < bits" "p \<noteq> 0" by linarith
  then show ?thesis
  proof cases
    case 2
    then have "(mask (bits - unat p) :: 'a word) = - 1"
      using assms by (simp add: mask_eq_exp_minus_1)
    with 2 show ?thesis by (simp add: net_mask_def)
  next
    case 3
    then show ?thesis
      by (simp add: net_mask_def mask_eq_exp_minus_1 push_bit_eq_mult)
  qed (simp add: net_mask_def)
qed

lemma and_not_mask_eq_iff:
  "(a AND NOT (mask n)) = (b AND NOT (mask n)) \<longleftrightarrow> drop_bit n a = drop_bit n (b :: 'a::len word)"
proof
  assume "a AND NOT (mask n) = b AND NOT (mask n)"
  then have "drop_bit n (a AND NOT (mask n)) = drop_bit n (b AND NOT (mask n))" by simp
  moreover have "drop_bit n (x AND NOT (mask n)) = drop_bit n x" for x :: "'a word"
    by (rule bit_eqI) (auto simp: bit_simps dest: bit_imp_le_length)
  ultimately show "drop_bit n a = drop_bit n b" by simp
next
  assume "drop_bit n a = drop_bit n b"
  then have "push_bit n (drop_bit n a) = push_bit n (drop_bit n b)" by simp
  moreover have "push_bit n (drop_bit n x) = x AND NOT (mask n)" for x :: "'a word"
    by (rule bit_eqI) (auto simp: bit_simps)
  ultimately show "a AND NOT (mask n) = b AND NOT (mask n)" by simp
qed

lemma masked_eq_iff:
  assumes "bits = LENGTH('a::len)"
  shows "(a AND net_mask bits p) = (b AND net_mask bits p)
     \<longleftrightarrow> unat (a :: 'a word) div 2 ^ (bits - unat p) = unat b div 2 ^ (bits - unat p)"
proof -
  have "(a AND net_mask bits p) = (b AND net_mask bits p)
      \<longleftrightarrow> drop_bit (bits - unat p) a = drop_bit (bits - unat p) b"
    by (simp only: net_mask_eq [OF assms] and_not_mask_eq_iff)
  also have "\<dots> \<longleftrightarrow> unat a div 2 ^ (bits - unat p) = unat b div 2 ^ (bits - unat p)"
    by (simp add: word_unat_eq_iff [of "drop_bit _ _"] unat_drop_bit_eq drop_bit_eq_div [where 'a = nat])
  finally show ?thesis .
qed

section \<open>Parsing of network lists\<close>

lemma validate_cidr_parses: "validate_cidr s = Inr () \<Longrightarrow> \<exists>n. parse_cidr s = Some n"
  by (auto simp: validate_cidr_def parse_cidr_def split: option.splits prod.splits)

lemma collect_all_Some: "(\<forall>x \<in> set xs. \<exists>y. f x = Some y) \<Longrightarrow> \<exists>ys. collect_all f xs = Some ys"
  by (induction xs) auto

lemma acl_from_config_Some:
  assumes "\<forall>s \<in> set (al @ dn). validate_cidr s = Inr ()"
  shows "\<exists>l. acl_from_config al dn = Some l"
proof -
  obtain a d where "collect_all parse_cidr al = Some a" "collect_all parse_cidr dn = Some d"
    using assms collect_all_Some [of al parse_cidr] collect_all_Some [of dn parse_cidr]
      validate_cidr_parses by auto
  then show ?thesis by (simp add: acl_from_config_def)
qed

lemma set_collect_all: "collect_all f xs = Some ys \<Longrightarrow> set ys = {y. \<exists>x \<in> set xs. f x = Some y}"
  by (induction xs arbitrary: ys) (auto split: bind_splits)

lemma is_allowed_iff:
  assumes "acl_from_config al dn = Some l"
  shows "is_allowed l ip \<longleftrightarrow>
     \<not> (\<exists>s \<in> set dn. \<exists>n. parse_cidr s = Some n \<and> net_contains n ip)
     \<and> (al = [] \<or> (\<exists>s \<in> set al. \<exists>n. parse_cidr s = Some n \<and> net_contains n ip))"
proof -
  obtain a d where a: "collect_all parse_cidr al = Some a" and d: "collect_all parse_cidr dn = Some d"
    and l: "l = \<lparr>allow = a, deny = d\<rparr>"
    using assms by (auto simp: acl_from_config_def split: bind_splits)
  have "a = [] \<longleftrightarrow> al = []" using a by (cases al) (auto split: bind_splits)
  then show ?thesis
    using set_collect_all [OF a] set_collect_all [OF d]
    by (auto simp: is_allowed_def l list_ex_iff simp del: net_contains.simps)
qed

section \<open>Response headers\<close>

text \<open>The lower-case names under which the five headers are stored.\<close>

definition security_names :: "string list" where
  "security_names = map (to_ascii_lowercase \<circ> fst) security_pairs"

lemma security_pairs_valid:
  "\<forall>(k, v) \<in> set security_pairs. k \<noteq> [] \<and> list_all token_char k \<and> list_all visible_char v"
  by (simp add: security_pairs_def token_char_def visible_char_def Let_def)

context http_crate
begin

lemma vals_insert_if_absent:
  assumes "fst kv \<noteq> []" "list_all token_char (fst kv)" "list_all visible_char (snd kv)"
  shows "vals L (insert_if_absent L h kv) n
       = (if vals L h n = [] \<and> n = to_ascii_lowercase (fst kv) then [snd kv] else vals L h n)"
  using assms
  by (simp add: insert_if_absent_def contains_key_str_def name_token value_visible contains_vals vals_insert)

text \<open>Filling in a list of defaults adds a name only where it has no value yet.\<close>

lemma vals_fill:
  assumes "\<forall>(k, v) \<in> set kvs. k \<noteq> [] \<and> list_all token_char k \<and> list_all visible_char v"
  shows "vals L (foldl (insert_if_absent L) h kvs) n
       = (if vals L h n \<noteq> [] then vals L h n
          else (case map_of (map (\<lambda>(k, v). (to_ascii_lowercase k, v)) kvs) n of
                  None \<Rightarrow> [] | Some v \<Rightarrow> [v]))"
  using assms
  by (induction kvs arbitrary: h) (auto simp: vals_insert_if_absent)

lemma vals_security_headers:
  "vals L (apply_security_headers L h) n
     = (if vals L h n \<noteq> [] then vals L h n
        else (case map_of (map (\<lambda>(k, v). (to_ascii_lowercase k, v)) security_pairs) n of
                None \<Rightarrow> [] | Some v \<Rightarrow> [v]))"
  unfolding apply_security_headers_def by (rule vals_fill [OF security_pairs_valid])

end

section \<open>Properties\<close>

text \<open>C18. CIDR matching on machine words is prefix matching: a network contains an address exactly
  when both are of the same family and their leading \<open>prefix\<close> bits (all of them, when the
  prefix is at least the width) are equal, that is, when they lie in the same aligned block of
  \<open>2 ^ (width - prefix)\<close> addresses.\<close>

theorem net_contains_prefix_match:
  "net_contains \<lparr>net_addr = n, net_prefix = p\<rparr> ip \<longleftrightarrow>
     (\<exists>a b. n = V4 a \<and> ip = V4 b \<and> unat a div 2 ^ (32 - unat p) = unat b div 2 ^ (32 - unat p))
     \<or> (\<exists>a b. n = V6 a \<and> ip = V6 b \<and> unat a div 2 ^ (128 - unat p) = unat b div 2 ^ (128 - unat p))"
  by (cases n; cases ip) (simp_all add: masked_eq_iff)

text \<open>C16. The ACL is deny-over-allow: with the lists parsed from the configuration texts, an
  address passes exactly when no deny entry contains it and either the allow list is empty or one of
  its entries contains it.\<close>

theorem acl_deny_over_allow:
  assumes "acl_from_config al dn = Some l"
  shows "is_allowed l ip \<longleftrightarrow>
     \<not> (\<exists>s \<in> set dn. \<exists>n. parse_cidr s = Some n \<and> net_contains n ip)
     \<and> (al = [] \<or> (\<exists>s \<in> set al. \<exists>n. parse_cidr s = Some n \<and> net_contains n ip))"
  by (rule is_allowed_iff [OF assms])

text \<open>A validated configuration never loses its ACL: for every configuration that \<open>validate\<close>
  accepts, building the ACL from its lists and building the trusted-proxy list both succeed, so the
  \<open>.ok()\<close> in \<open>handle_one_connection\<close> cannot silently drop a configured ACL.\<close>

theorem validated_acl_builds:
  assumes "validate parse_uri file_exists c = Inr ()"
  shows "(\<forall>a. acl c = Some a \<longrightarrow> (\<exists>l. acl_from_config (acl_allow a) (acl_deny a) = Some l))
       \<and> (\<exists>l. acl_from_config (proxy_protocol_trusted_cidrs c) [] = Some l)"
  using validate_valid_config [OF assms]
  by (auto simp: valid_config_def intro!: acl_from_config_Some)

text \<open>The security headers are defaults: afterwards each of the five names has a value, a name
  that already had values keeps exactly those, and no other name is touched.\<close>

theorem security_headers_defaults:
  assumes "http_crate L"
  shows "(n \<in> set security_names \<longrightarrow> hm_contains_key L (apply_security_headers L h) n)
       \<and> (vals L h n \<noteq> [] \<or> n \<notin> set security_names \<longrightarrow>
            vals L (apply_security_headers L h) n = vals L h n)"
proof -
  let ?m = "map_of (map (\<lambda>(k, v). (to_ascii_lowercase k, v)) security_pairs)"
  have "n \<in> dom ?m \<longleftrightarrow> n \<in> set security_names"
    by (simp add: dom_map_of_conv_image_fst security_names_def image_image case_prod_beta)
  then show ?thesis
    by (cases "?m n")
      (auto simp: http_crate.contains_vals [OF assms] http_crate.vals_security_headers [OF assms])
qed

section \<open>Witnesses\<close>

theorem acl_deny_over_allow_witness:
  "\<exists>l. acl_from_config [''0.0.0.0/0''] [''10.0.0.0/8''] = Some l
     \<and> (is_allowed l (V4 0x0A010203) \<longleftrightarrow>
         \<not> (\<exists>s \<in> set [''10.0.0.0/8'']. \<exists>n. parse_cidr s = Some n \<and> net_contains n (V4 0x0A010203))
         \<and> ([''0.0.0.0/0''] = []
            \<or> (\<exists>s \<in> set [''0.0.0.0/0'']. \<exists>n. parse_cidr s = Some n \<and> net_contains n (V4 0x0A010203))))"
proof -
  have "acl_from_config [''0.0.0.0/0''] [''10.0.0.0/8'']
      = Some \<lparr>allow = [\<lparr>net_addr = V4 0, net_prefix = 0\<rparr>],
              deny = [\<lparr>net_addr = V4 0x0A000000, net_prefix = 8\<rparr>]\<rparr>"
    by (simp add: acl_from_config_def parse_cidr_def parse_eval)
  then show ?thesis using acl_deny_over_allow by blast
qed

text \<open>A configuration with one upstream, an access list and a rate limit, for the witnesses.\<close>

definition acl_example :: config where
  "acl_example =
     (default_config unspecified_addr unspecified_addr)
       \<lparr>upstreams := [\<lparr>address = ''http://a'', weight = 1\<rparr>],
        acl := Some \<lparr>acl_allow = [], acl_deny = [''10.0.0.0/8'']\<rparr>, admin_token := Some ''secret'',
        rate_limit := Some \<lparr>rps = 1, burst_factor = Fin 2\<rparr>, max_connections := 2\<rparr>"

theorem validated_acl_builds_witness:
  "(\<exists>l. acl_from_config [] [''10.0.0.0/8''] = Some l)
     \<and> (\<exists>l. acl_from_config (proxy_protocol_trusted_cidrs acl_example) [] = Some l)"
proof -
  have "validate (\<lambda>s. Some \<lparr>scheme_str = Some ''http'', uri_host = Some ''a''\<rparr>) (\<lambda>_. True) acl_example = Inr ()"
    by (simp add: acl_example_def default_config_def validate_def validate_upstream_def bail_if_def
        default_health_check_def default_timeouts_def default_max_body_def validate_cidr_def parse_eval)
  from validated_acl_builds [OF this] show ?thesis by (simp add: acl_example_def)
qed

theorem security_headers_defaults_witness:
  "hm_contains_key (alist_http Map.empty) (apply_security_headers (alist_http Map.empty) []) ''x-frame-options''"
proof -
  have "''x-frame-options'' \<in> set security_names"
    by code_simp
  then show ?thesis
    using security_headers_defaults [OF alist_http_crate, of "''x-frame-options''" Map.empty "[]"] by simp
qed

end
