(* ===== verification/Handler.thy ===== *)
theory Handler
  imports BodyLimit Metrics Router RateLimit Security
begin

text \<open>
  The request handler of \<open>src/proxy/handler.rs\<close>. A request is handled by one task; the state it shares
  with the other tasks is a record \<open>world\<close>. An \<open>Arc\<close> to a balancer, a rate limiter or a semaphore is an
  index into a store of the world. Where the code awaits, other tasks run: the await returns the world
  they leave behind, which an argument describes and which no definition restricts. Logging is left
  out. \<open>None\<close> is a panic.
\<close>

section \<open>Data\<close>

datatype http_version = HTTP_09 | HTTP_10 | HTTP_11 | HTTP_2 | HTTP_3

record ('h, 'b) request =
  rq_method :: string
  rq_path :: string
  rq_query :: "string option"
  rq_version :: http_version
  rq_headers :: 'h
  rq_body :: 'b

record ('h, 'b) response =
  rs_status :: nat
  rs_version :: http_version
  rs_headers :: 'h
  rs_body :: 'b

text \<open>The body of a response: a fixed text, or the upstream's body behind the idle timeout.\<close>

datatype 'b response_body = Full string | Streamed "'b map_err_body idle_body"

type_synonym ('h, 'b) proxy_response = "('h, 'b response_body) response"

datatype attempt_error = BadTargetUri | BuildRequest | RequestTimedOut | UpstreamError string

record proxy_context =
  ctx_router :: router
  ctx_retries :: u32
  ctx_request_timeout :: duration
  ctx_sticky :: "sticky_config option"
  ctx_headers :: header_config
  ctx_rate_limiter :: "nat option"
  ctx_max_body_bytes :: usize
  ctx_retry_idempotent_only :: bool
  ctx_force_retry_with_body :: bool
  ctx_acl :: "acl option"
  ctx_security_headers :: bool
  ctx_client_is_tls :: bool
  ctx_request_limit :: "nat option"
  ctx_idle_timeout :: duration

record 'env world =
  w_store :: "load_balancer list"
  w_limiters :: "rate_limiter list"
  w_permits :: "nat list"
  w_metrics :: metrics
  w_tunnels :: "string list"
  w_clock :: instant
  w_env :: 'env

text \<open>
  The code outside the repository: the \<open>http\<close> crate, the timer, the client's body with the text of
  its errors, \<open>collect\<close>, and the pooled client's \<open>request\<close> under a timeout (\<open>None\<close> when the timeout
  elapsed, \<open>Inl\<close> the text of its error).
\<close>

record ('h, 'b, 'e, 'env) externals =
  x_http :: "'h http_lib"
  x_timer :: timer_lib
  x_body :: "('b, 'e) body_impl"
  x_display :: "'e \<Rightarrow> string"
  x_collect :: "'env world \<Rightarrow> 'b collector"
  x_collect_world :: "'env world \<Rightarrow> 'env world"
  x_request :: "('h, string) request \<Rightarrow> duration \<Rightarrow> 'env world
                  \<Rightarrow> (string + ('h, 'b) response) option \<times> 'env world"

section \<open>Operations on the world\<close>

definition upd_metrics :: "(metrics \<Rightarrow> metrics) \<Rightarrow> 'env world \<Rightarrow> 'env world" where
  "upd_metrics f w = w\<lparr>w_metrics := f (w_metrics w)\<rparr>"

definition with_lb :: "lb_ref \<Rightarrow> (load_balancer \<Rightarrow> 'a \<times> load_balancer) \<Rightarrow> 'env world \<Rightarrow> 'a \<times> 'env world" where
  "with_lb l f w = (case f (w_store w ! l) of (r, lb) \<Rightarrow> (r, w\<lparr>w_store := (w_store w)[l := lb]\<rparr>))"

definition upd_upstream :: "lb_ref \<Rightarrow> nat \<Rightarrow> (upstream_runtime \<Rightarrow> upstream_runtime) \<Rightarrow> 'env world \<Rightarrow> 'env world" where
  "upd_upstream l i f w = w\<lparr>w_store := (w_store w)[l := update_upstream i f (w_store w ! l)]\<rparr>"

definition upstream_addr :: "lb_ref \<Rightarrow> nat \<Rightarrow> 'env world \<Rightarrow> string" where
  "upstream_addr l i w = lb_addr (w_store w ! l) i"

definition elapsed_secs :: "instant \<Rightarrow> 'env world \<Rightarrow> f64" where
  "elapsed_secs start w = as_secs_f64 (duration_since (w_clock w) start)"

section \<open>Requests and headers\<close>

definition is_upgrade_request :: "'h http_lib \<Rightarrow> ('h, 'b) request \<Rightarrow> bool" where
  "is_upgrade_request L rq =
     (hm_contains_key L (rq_headers rq) ''upgrade''
      \<or> (case Option.bind (hm_get L (rq_headers rq) ''connection'') (value_to_str L) of
           Some s \<Rightarrow> contains_sub (to_ascii_lowercase s) ''upgrade''
         | None \<Rightarrow> False))"

fun cookie_in :: "string list \<Rightarrow> string \<Rightarrow> string option" where
  "cookie_in [] name = None"
| "cookie_in (part # parts) name =
     (case split_once (CHR ''='') (trim part) of
        Some (k, v) \<Rightarrow> if trim k = name then Some (trim v) else cookie_in parts name
      | None \<Rightarrow> cookie_in parts name)"

definition extract_cookie :: "'h http_lib \<Rightarrow> 'h \<Rightarrow> string \<Rightarrow> string option" where
  "extract_cookie L h name =
     (case Option.bind (hm_get L h ''cookie'') (value_to_str L) of
        None \<Rightarrow> None
      | Some cookie \<Rightarrow> cookie_in (split (CHR '';'') cookie) name)"

text \<open>The text of the target and whether it parses as a URI.\<close>

definition build_target_uri :: "'h http_lib \<Rightarrow> string \<Rightarrow> string \<Rightarrow> string option \<Rightarrow> string option" where
  "build_target_uri L upstream_base path query =
     (let base = trim_end_matches (CHR ''/'') upstream_base;
          path = (if path = [] then ''/'' else path);
          full = (case query of Some q \<Rightarrow> base @ path @ ''?'' @ q | None \<Rightarrow> base @ path)
      in case uri_parse L full of None \<Rightarrow> None | Some _ \<Rightarrow> Some full)"

definition extract_host :: "string \<Rightarrow> string option" where
  "extract_host upstream =
     (case (case strip_prefix ''http://'' upstream of
              Some r \<Rightarrow> Some r | None \<Rightarrow> strip_prefix ''https://'' upstream) of
        None \<Rightarrow> None
      | Some without_scheme \<Rightarrow> Some (hd (split (CHR ''/'') without_scheme)))"

definition is_hop_by_hop :: "string \<Rightarrow> bool" where
  "is_hop_by_hop n =
     (n \<in> {''connection'', ''keep-alive'', ''proxy-authenticate'', ''proxy-authorization'', ''te'',
           ''trailers'', ''transfer-encoding'', ''upgrade''})"

definition is_hop_by_hop_except_upgrade :: "string \<Rightarrow> bool" where
  "is_hop_by_hop_except_upgrade n =
     (n \<in> {''keep-alive'', ''proxy-authenticate'', ''proxy-authorization'', ''te'', ''trailers'',
           ''transfer-encoding''})"

text \<open>
  The request and response builders of the \<open>http\<close> crate collect headers until one is invalid; then
  \<open>body\<close> returns an error.
\<close>

definition builder_header :: "'h http_lib \<Rightarrow> 'h option \<Rightarrow> string \<times> string \<Rightarrow> 'h option" where
  "builder_header L b kv =
     (case b of
        None \<Rightarrow> None
      | Some h \<Rightarrow>
          (case (name_from_bytes L (fst kv), value_from_str L (snd kv)) of
             (Some n, Some v) \<Rightarrow> Some (hm_append L h n v)
           | _ \<Rightarrow> None))"

text \<open>The loops that copy the headers that are not skipped.\<close>

definition copy_headers :: "'h http_lib \<Rightarrow> (string \<Rightarrow> bool) \<Rightarrow> 'h \<Rightarrow> 'h" where
  "copy_headers L keep h =
     foldl (\<lambda>out (n, v). if keep n then hm_append L out n v else out) (hm_empty L) (hm_iter L h)"

definition error_response :: "'h http_lib \<Rightarrow> nat \<Rightarrow> string \<Rightarrow> ('h, 'b) proxy_response option" where
  "error_response L status msg =
     map_option (\<lambda>h. \<lparr>rs_status = status, rs_version = HTTP_11, rs_headers = h, rs_body = Full msg\<rparr>)
       (builder_header L (builder_header L (Some (hm_empty L)) (''Content-Type'', ''text/plain; charset=utf-8''))
          (''Connection'', ''close''))"

section \<open>One attempt\<close>

record 'h proxy_attempt =
  pa_headers :: 'h
  pa_version :: http_version
  pa_body :: string
  pa_address :: string
  pa_method :: string
  pa_path :: string
  pa_query :: "string option"
  pa_remote :: socket_addr
  pa_headers_cfg :: header_config
  pa_request_timeout :: duration
  pa_idle_timeout :: duration
  pa_client_is_tls :: bool
  pa_preserve_upgrade :: bool

definition skip_header :: "bool \<Rightarrow> string \<Rightarrow> bool" where
  "skip_header preserve_upgrade n =
     (if preserve_upgrade then is_hop_by_hop_except_upgrade n else is_hop_by_hop n)"

text \<open>
  The request for the upstream: the lines up to the call of the client. Its target URI is kept as text in
  the path.
\<close>

definition build_request :: "'h http_lib \<Rightarrow> 'h proxy_attempt \<Rightarrow> attempt_error + ('h, string) request" where
  "build_request L a =
     (case build_target_uri L (pa_address a) (pa_path a) (pa_query a) of
        None \<Rightarrow> Inl BadTargetUri
      | Some target_uri \<Rightarrow>
          (let b = Some (copy_headers L (\<lambda>n. n \<noteq> ''host'' \<and> \<not> skip_header (pa_preserve_upgrade a) n) (pa_headers a));
               client_ip = show_ip (sa_ip (pa_remote a));
               b = builder_header L b (''X-Real-IP'', client_ip);
               b = builder_header L b (''X-Forwarded-For'', client_ip);
               b = builder_header L b (''X-Forwarded-Proto'', if pa_client_is_tls a then ''https'' else ''http'');
               b = foldl (builder_header L) b (request_set (pa_headers_cfg a));
               b = (case Option.bind (extract_host (pa_address a)) (value_from_str L) of
                      None \<Rightarrow> b
                    | Some hv \<Rightarrow> map_option (\<lambda>h. hm_append L h ''host'' hv) b)
           in case b of
                None \<Rightarrow> Inl BuildRequest
              | Some h \<Rightarrow>
                  Inr \<lparr>rq_method = pa_method a, rq_path = target_uri, rq_query = None,
                       rq_version = pa_version a, rq_headers = h, rq_body = pa_body a\<rparr>))"

text \<open>The response for the client: lines after the call; the body is wrapped at the current time.\<close>

definition build_response ::
  "'h http_lib \<Rightarrow> timer_lib \<Rightarrow> instant \<Rightarrow> 'h proxy_attempt \<Rightarrow> ('h, 'b) response \<Rightarrow> ('h, 'b) proxy_response" where
  "build_response L T now a r =
     \<lparr>rs_status = rs_status r, rs_version = rs_version r,
      rs_headers = copy_headers L (\<lambda>n. \<not> skip_header (pa_preserve_upgrade a) n) (rs_headers r),
      rs_body = Streamed (idle_wrap T now (rs_body r) (pa_idle_timeout a))\<rparr>"

definition attempt_proxy ::
  "('h, 'b, 'e, 'env) externals \<Rightarrow> 'h proxy_attempt \<Rightarrow> 'env world
     \<Rightarrow> (attempt_error + ('h, 'b) proxy_response) \<times> 'env world" where
  "attempt_proxy X a w =
     (case build_request (x_http X) a of
        Inl e \<Rightarrow> (Inl e, w)
      | Inr proxy_req \<Rightarrow>
          (case x_request X proxy_req (pa_request_timeout a) w of
             (None, w) \<Rightarrow> (Inl RequestTimedOut, w)
           | (Some (Inl e), w) \<Rightarrow> (Inl (UpstreamError e), w)
           | (Some (Inr r), w) \<Rightarrow>
               (Inr (build_response (x_http X) (x_timer X) (w_clock w) a r), w)))"

definition make_attempt ::
  "proxy_context \<Rightarrow> ('h, 'b) request \<Rightarrow> socket_addr \<Rightarrow> string \<Rightarrow> string \<Rightarrow> bool \<Rightarrow> 'h proxy_attempt" where
  "make_attempt ctx rq remote addr body preserve =
     \<lparr>pa_headers = rq_headers rq, pa_version = rq_version rq, pa_body = body, pa_address = addr,
      pa_method = rq_method rq, pa_path = rq_path rq, pa_query = rq_query rq, pa_remote = remote,
      pa_headers_cfg = ctx_headers ctx, pa_request_timeout = ctx_request_timeout ctx,
      pa_idle_timeout = ctx_idle_timeout ctx, pa_client_is_tls = ctx_client_is_tls ctx,
      pa_preserve_upgrade = preserve\<rparr>"

section \<open>The retry loop\<close>

definition may_retry :: "proxy_context \<Rightarrow> string \<Rightarrow> string \<Rightarrow> bool" where
  "may_retry ctx method body =
     (ctx_force_retry_with_body ctx \<or> body = [] \<or> \<not> ctx_retry_idempotent_only ctx
      \<or> method \<in> {''GET'', ''HEAD'', ''OPTIONS'', ''PUT'', ''DELETE''})"

definition max_attempts :: "proxy_context \<Rightarrow> string \<Rightarrow> string \<Rightarrow> u32" where
  "max_attempts ctx method body =
     (if may_retry ctx method body then saturating_add_u32 (ctx_retries ctx) 1 else 1)"

definition sticky_cookie :: "sticky_config \<Rightarrow> string \<Rightarrow> string" where
  "sticky_cookie s addr =
     cookie_name s @ ''='' @ addr @ ''; Path=/; Max-Age='' @ show_nat (unat (max_age_secs s))
     @ ''; HttpOnly; SameSite=Lax''"

definition set_header :: "'h http_lib \<Rightarrow> 'h \<Rightarrow> string \<times> string \<Rightarrow> 'h" where
  "set_header L h kv =
     (case (name_from_bytes L (fst kv), value_from_str L (snd kv)) of
        (Some n, Some v) \<Rightarrow> hm_insert L h n v
      | _ \<Rightarrow> h)"

text \<open>The headers the handler adds to a response: cookie, security headers, configured headers.\<close>

definition finish_headers :: "'h http_lib \<Rightarrow> proxy_context \<Rightarrow> string \<Rightarrow> 'h \<Rightarrow> 'h" where
  "finish_headers L ctx addr h =
     (let h = (case ctx_sticky ctx of
                 None \<Rightarrow> h
               | Some s \<Rightarrow>
                   (case value_from_str L (sticky_cookie s addr) of
                      None \<Rightarrow> h
                    | Some v \<Rightarrow> hm_append L h ''set-cookie'' v));
          h = (if ctx_security_headers ctx then apply_security_headers L h else h)
      in foldl (set_header L) h (response_set (ctx_headers ctx)))"

text \<open>The choice of the upstream for one round.\<close>

definition choose_upstream ::
  "lb_ref \<Rightarrow> string option \<Rightarrow> nat \<Rightarrow> string list \<Rightarrow> 'env world \<Rightarrow> nat option \<times> 'env world" where
  "choose_upstream l sticky_val attempt tried w =
     (if attempt = 0 then with_lb l (\<lambda>lb. select_sticky lb sticky_val) w
      else with_lb l (\<lambda>lb. select_excluding lb tried)
             (upd_metrics (\<lambda>m. m\<lparr>retries_total := retries_total m + 1\<rparr>) w))"

text \<open>An attempt between the two updates of the connection counters.\<close>

definition counted_attempt ::
  "('h, 'b, 'e, 'env) externals \<Rightarrow> 'h proxy_attempt \<Rightarrow> lb_ref \<Rightarrow> nat \<Rightarrow> 'env world
     \<Rightarrow> (attempt_error + ('h, 'b) proxy_response) \<times> 'env world" where
  "counted_attempt X a l i w =
     (let addr = pa_address a;
          w = upd_upstream l i inc_connections w;
          w = upd_metrics (gauge_add addr 1) w
      in case attempt_proxy X a w of
           (result, w) \<Rightarrow>
             (let w = upd_upstream l i dec_connections w;
                  w = upd_metrics (gauge_add addr (- 1)) w
              in (result, w)))"

text \<open>The metrics of an answered request.\<close>

definition record_response ::
  "string \<Rightarrow> nat \<Rightarrow> string \<Rightarrow> instant \<Rightarrow> 'env world \<Rightarrow> 'env world" where
  "record_response method status addr start w =
     (let w = upd_metrics (count_request method (show_nat status) addr) w
      in upd_metrics (observe_duration addr (elapsed_secs start w)) w)"

text \<open>
  \<open>for attempt in 0..max_attempts\<close> with \<open>n\<close> rounds left. The result is the response, if an attempt
  succeeded, and the addresses tried.
\<close>

fun proxy_attempts ::
  "('h, 'b, 'e, 'env) externals \<Rightarrow> proxy_context \<Rightarrow> ('h, 'b) request \<Rightarrow> socket_addr \<Rightarrow> lb_ref \<Rightarrow> string option
     \<Rightarrow> string \<Rightarrow> instant \<Rightarrow> nat \<Rightarrow> nat \<Rightarrow> string list \<Rightarrow> 'env world
     \<Rightarrow> ('h, 'b) proxy_response option \<times> string list \<times> 'env world" where
  "proxy_attempts X ctx rq remote l sticky_val body start attempt 0 tried w = (None, tried, w)"
| "proxy_attempts X ctx rq remote l sticky_val body start attempt (Suc n) tried w =
     (case choose_upstream l sticky_val attempt tried w of
        (None, w) \<Rightarrow> (None, tried, w)
      | (Some i, w) \<Rightarrow>
          (let addr = upstream_addr l i w;
               tried = tried @ [addr]
           in case counted_attempt X (make_attempt ctx rq remote addr body False) l i w of
                (Inr r, w) \<Rightarrow>
                  (Some (r\<lparr>rs_headers := finish_headers (x_http X) ctx addr (rs_headers r)\<rparr>), tried,
                   record_response (rq_method rq) (rs_status r) addr start w)
              | (Inl e, w) \<Rightarrow>
                  proxy_attempts X ctx rq remote l sticky_val body start (Suc attempt) n tried w))"

section \<open>Upgrades\<close>

definition proxy_upgrade ::
  "('h, 'b, 'e, 'env) externals \<Rightarrow> ('h, 'b) request \<Rightarrow> lb_ref \<Rightarrow> proxy_context \<Rightarrow> socket_addr \<Rightarrow> instant
     \<Rightarrow> 'env world \<Rightarrow> (('h, 'b) proxy_response \<times> 'env world) option" where
  "proxy_upgrade X rq l ctx remote start w =
     (case with_lb l select w of
        (None, w) \<Rightarrow> map_option (\<lambda>r. (r, w)) (error_response (x_http X) 503 ''No healthy upstreams'')
      | (Some i, w) \<Rightarrow>
          (let addr = upstream_addr l i w;
               w = upd_upstream l i inc_connections w
           in case attempt_proxy X (make_attempt ctx rq remote addr [] True) w of
                (result, w) \<Rightarrow>
                  (let w = upd_upstream l i dec_connections w
                   in case result of
                        Inr r \<Rightarrow>
                          (let w = record_response (rq_method rq) (rs_status r) addr start w;
                               w = (if rs_status r = 101 then w\<lparr>w_tunnels := w_tunnels w @ [addr]\<rparr> else w)
                           in Some (r, w))
                      | Inl e \<Rightarrow> map_option (\<lambda>r. (r, w)) (error_response (x_http X) 502 ''Bad Gateway''))))"

section \<open>The handler\<close>

text \<open>Count the request with a status and no upstream, and answer with an error page.\<close>

definition reject ::
  "'h http_lib \<Rightarrow> string \<Rightarrow> nat \<Rightarrow> string \<Rightarrow> 'env world \<Rightarrow> (('h, 'b) proxy_response \<times> 'env world) option" where
  "reject L method status msg w =
     map_option (\<lambda>r. (r, upd_metrics (count_request method (show_nat status) ''none'') w))
       (error_response L status msg)"

text \<open>From the request body to the response.\<close>

definition proxy_forward ::
  "('h, 'b, 'e, 'env) externals \<Rightarrow> ('h, 'b) request \<Rightarrow> proxy_context \<Rightarrow> socket_addr \<Rightarrow> instant \<Rightarrow> lb_ref
     \<Rightarrow> string option \<Rightarrow> 'env world \<Rightarrow> (('h, 'b) proxy_response \<times> 'env world) option" where
  "proxy_forward X rq ctx remote start l sticky_val w =
     (let L = x_http X; method = rq_method rq
      in case collect_limited (x_timer X) (x_collect X w) (x_body X) (x_display X) (w_clock w) (rq_body rq)
                (ctx_max_body_bytes ctx) (ctx_idle_timeout ctx) of
           None \<Rightarrow> None
         | Some collected \<Rightarrow>
             (let w = x_collect_world X w
              in case collected of
                   Inl TooLarge \<Rightarrow> reject L method 413 ''Payload Too Large'' w
                 | Inl IdleTimeout \<Rightarrow> reject L method 408 ''Request Body Idle Timeout'' w
                 | Inl (Other e) \<Rightarrow> map_option (\<lambda>r. (r, w)) (error_response L 400 ''Bad Request'')
                 | Inr body \<Rightarrow>
                     (case proxy_attempts X ctx rq remote l sticky_val body start 0
                             (unat (max_attempts ctx method body)) [] w of
                        (Some r, tried, w) \<Rightarrow> Some (r, w)
                      | (None, tried, w) \<Rightarrow> reject L method 502 ''Bad Gateway'' w)))"

definition check_limiter :: "nat \<Rightarrow> ip_addr \<Rightarrow> 'env world \<Rightarrow> (bool \<times> 'env world) option" where
  "check_limiter k ip w =
     map_option (\<lambda>(ok, rl). (ok, w\<lparr>w_limiters := (w_limiters w)[k := rl]\<rparr>))
       (check (w_limiters w ! k) (w_clock w) ip)"

text \<open>After a request permit was obtained: access list, rate limit, route, upgrade or forward.\<close>

definition proxy_admitted ::
  "('h, 'b, 'e, 'env) externals \<Rightarrow> ('h, 'b) request \<Rightarrow> proxy_context \<Rightarrow> socket_addr \<Rightarrow> instant
     \<Rightarrow> 'env world \<Rightarrow> (('h, 'b) proxy_response \<times> 'env world) option" where
  "proxy_admitted X rq ctx remote start w =
     (let L = x_http X; method = rq_method rq; ip = sa_ip (remote);
          routed = (\<lambda>w. case resolve (ctx_router ctx) (rq_path rq) of
             None \<Rightarrow> reject L method 404 ''No route matched'' w
           | Some l \<Rightarrow>
               (let sticky_val = Option.bind (ctx_sticky ctx) (\<lambda>s. extract_cookie L (rq_headers rq) (cookie_name s))
                in if is_upgrade_request L rq then proxy_upgrade X rq l ctx remote start w
                   else proxy_forward X rq ctx remote start l sticky_val w))
      in if (case ctx_acl ctx of Some a \<Rightarrow> \<not> is_allowed a ip | None \<Rightarrow> False)
         then reject L method 403 ''Forbidden'' w
         else (case ctx_rate_limiter ctx of
                 None \<Rightarrow> routed w
               | Some k \<Rightarrow>
                   (case check_limiter k ip w of
                      None \<Rightarrow> None
                    | Some (ok, w) \<Rightarrow>
                        if \<not> ok
                        then reject L method 429 ''Too Many Requests''
                               (upd_metrics (\<lambda>m. m\<lparr>rate_limit_rejects := rate_limit_rejects m + 1\<rparr>) w)
                        else routed (upd_metrics (\<lambda>m. m\<lparr>rate_limit_allows := rate_limit_allows m + 1\<rparr>) w))))"

text \<open>The permit is held until the response is returned.\<close>

definition release_permit :: "nat \<Rightarrow> 'env world \<Rightarrow> 'env world" where
  "release_permit k w = w\<lparr>w_permits := (w_permits w)[k := Suc (w_permits w ! k)]\<rparr>"

definition proxy_request ::
  "('h, 'b, 'e, 'env) externals \<Rightarrow> ('h, 'b) request \<Rightarrow> proxy_context \<Rightarrow> socket_addr \<Rightarrow> 'env world
     \<Rightarrow> (('h, 'b) proxy_response \<times> 'env world) option" where
  "proxy_request X rq ctx remote w =
     (let start = w_clock w
      in case ctx_request_limit ctx of
           None \<Rightarrow> proxy_admitted X rq ctx remote start w
         | Some k \<Rightarrow>
             if w_permits w ! k = 0
             then reject (x_http X) (rq_method rq) 503 ''Too Many Concurrent Requests'' w
             else map_option (\<lambda>(r, w). (r, release_permit k w))
                    (proxy_admitted X rq ctx remote start
                       (w\<lparr>w_permits := (w_permits w)[k := w_permits w ! k - 1]\<rparr>)))"

section \<open>Headers on the way to the upstream and back\<close>

text \<open>The values a list of configured headers gives a name.\<close>

definition configured :: "'h http_lib \<Rightarrow> (string \<times> string) list \<Rightarrow> string \<Rightarrow> string list" where
  "configured L kvs n =
     List.map_filter (\<lambda>(k, v). if name_from_bytes L k = Some n then value_from_str L v else None) kvs"

definition valid_pair :: "'h http_lib \<Rightarrow> string \<times> string \<Rightarrow> bool" where
  "valid_pair L kv = (name_from_bytes L (fst kv) \<noteq> None \<and> value_from_str L (snd kv) \<noteq> None)"

lemma configured_simps [simp]:
  "configured L [] n = []"
  "configured L ((k, v) # kvs) n =
     (if name_from_bytes L k = Some n then (case value_from_str L v of None \<Rightarrow> [] | Some x \<Rightarrow> [x]) else [])
     @ configured L kvs n"
  by (auto simp: configured_def List.map_filter_simps split: option.splits)

lemma visible_punct [simp]: "visible_char (CHR '':'')" "visible_char (CHR ''.'')" "visible_char (CHR ''f'')"
  by (simp_all add: visible_char_def)

lemma digit_char_visible: "d < 16 \<Longrightarrow> visible_char (digit_char d)"
  by (simp add: visible_char_def digit_char_def)

lemma show_nat_visible: "list_all visible_char (show_nat n)"
  using show_nat_digits digit_char_visible by (fastforce simp: list_all_iff)

lemma show_hex_visible: "list_all visible_char (show_hex n)"
  by (induction n rule: show_hex.induct) (subst show_hex.simps, simp add: digit_char_visible)

lemma show_segments_visible: "list_all visible_char (show_segments gs)"
  by (induction gs rule: show_segments.induct) (simp_all add: show_hex_visible)

lemma show_ipv4_visible: "list_all visible_char (show_ipv4 w)"
  by (simp add: show_ipv4_def Let_def show_nat_visible)

lemma show_ip_visible: "list_all visible_char (show_ip ip)"
  by (cases ip) (auto simp: show_ipv4_visible show_ipv6_def Let_def show_segments_visible
      split: prod.splits)

context http_crate
begin

lemma vals_copy_headers: "vals L (copy_headers L keep h) n = (if keep n then vals L h n else [])"
  unfolding copy_headers_def vals_copy by (simp add: vals_empty) (simp add: vals_def)

lemma builder_header_valid:
  assumes "k \<noteq> []" "list_all token_char k" "list_all visible_char v"
  shows "builder_header L (Some h) (k, v) = Some (hm_append L h (to_ascii_lowercase k) v)"
  using assms by (simp add: builder_header_def name_token value_visible)

lemma builder_header_step:
  "builder_header L None kv = None"
  "\<not> valid_pair L kv \<Longrightarrow> builder_header L (Some h) kv = None"
  "name_from_bytes L k = Some n \<Longrightarrow> value_from_str L v = Some x \<Longrightarrow>
     builder_header L (Some h) (k, v) = Some (hm_append L h n x)"
  by (auto simp: builder_header_def valid_pair_def split: option.splits)

lemma builder_foldl_None: "foldl (builder_header L) None kvs = None"
  by (induction kvs) (simp_all add: builder_header_step)

lemma valid_pairE:
  assumes "valid_pair L kv"
  obtains k v n x where "kv = (k, v)" "name_from_bytes L k = Some n" "value_from_str L v = Some x"
  using assms by (cases kv) (auto simp: valid_pair_def)

lemma builder_foldl:
  "foldl (builder_header L) (Some h) kvs = None \<longleftrightarrow> \<not> list_all (valid_pair L) kvs"
  "foldl (builder_header L) (Some h) kvs = Some h' \<Longrightarrow> vals L h' n = vals L h n @ configured L kvs n"
proof (induction kvs arbitrary: h)
  case (Cons kv kvs)
  {
    case 1
    show ?case
    proof (cases "valid_pair L kv")
      case True
      then show ?thesis
        by (rule valid_pairE) (simp add: builder_header_step Cons.IH(1) valid_pair_def)
    qed (simp add: builder_header_step builder_foldl_None)
  next
    case 2
    then have "valid_pair L kv"
      by (intro ccontr [of "valid_pair L kv"]) (simp add: builder_header_step builder_foldl_None)
    then show ?case
    proof (rule valid_pairE)
      fix k v m x
      assume kv: "kv = (k, v)" "name_from_bytes L k = Some m" "value_from_str L v = Some x"
      have "vals L h' n = vals L (hm_append L h m x) n @ configured L kvs n"
        using 2 kv Cons.IH(2) [of "hm_append L h m x"] by (simp add: builder_header_step)
      with kv show ?thesis by (simp add: vals_append)
    qed
  }
qed simp_all

end

text \<open>The values of every header name in the request for the upstream.\<close>

definition forwarded_vals :: "'h http_lib \<Rightarrow> 'h proxy_attempt \<Rightarrow> string \<Rightarrow> string list" where
  "forwarded_vals L a n =
     (if n = ''host'' \<or> skip_header (pa_preserve_upgrade a) n then [] else vals L (pa_headers a) n)
     @ (if n = ''x-real-ip'' then [show_ip (sa_ip (pa_remote a))] else [])
     @ (if n = ''x-forwarded-for'' then [show_ip (sa_ip (pa_remote a))] else [])
     @ (if n = ''x-forwarded-proto'' then [if pa_client_is_tls a then ''https'' else ''http''] else [])
     @ configured L (request_set (pa_headers_cfg a)) n
     @ (if n = ''host''
        then (case Option.bind (extract_host (pa_address a)) (value_from_str L) of None \<Rightarrow> [] | Some hv \<Rightarrow> [hv])
        else [])"

lemma lowercase_names:
  "to_ascii_lowercase ''X-Real-IP'' = ''x-real-ip''"
  "to_ascii_lowercase ''X-Forwarded-For'' = ''x-forwarded-for''"
  "to_ascii_lowercase ''X-Forwarded-Proto'' = ''x-forwarded-proto''"
  "to_ascii_lowercase ''Content-Type'' = ''content-type''"
  "to_ascii_lowercase ''Connection'' = ''connection''"
  by code_simp+

definition forwarding :: "'h http_lib \<Rightarrow> 'h proxy_attempt \<Rightarrow> 'h" where
  "forwarding L a =
     hm_append L
       (hm_append L
         (hm_append L
           (copy_headers L (\<lambda>n. n \<noteq> ''host'' \<and> \<not> skip_header (pa_preserve_upgrade a) n) (pa_headers a))
           ''x-real-ip'' (show_ip (sa_ip (pa_remote a))))
         ''x-forwarded-for'' (show_ip (sa_ip (pa_remote a))))
       ''x-forwarded-proto'' (if pa_client_is_tls a then ''https'' else ''http'')"

context http_crate
begin

lemma own_headers:
  "builder_header L (builder_header L (builder_header L
       (Some (copy_headers L (\<lambda>n. n \<noteq> ''host'' \<and> \<not> skip_header (pa_preserve_upgrade a) n) (pa_headers a)))
       (''X-Real-IP'', show_ip (sa_ip (pa_remote a))))
       (''X-Forwarded-For'', show_ip (sa_ip (pa_remote a))))
       (''X-Forwarded-Proto'', if pa_client_is_tls a then ''https'' else ''http'')
   = Some (forwarding L a)"
proof -
  have real: "builder_header L (Some h) (''X-Real-IP'', show_ip ip) = Some (hm_append L h ''x-real-ip'' (show_ip ip))" for h ip
    by (subst builder_header_valid) (simp_all add: show_ip_visible token_char_def lowercase_names)
  have xff: "builder_header L (Some h) (''X-Forwarded-For'', show_ip ip) = Some (hm_append L h ''x-forwarded-for'' (show_ip ip))" for h ip
    by (subst builder_header_valid) (simp_all add: show_ip_visible token_char_def lowercase_names)
  have proto: "builder_header L (Some h) (''X-Forwarded-Proto'', if b then ''https'' else ''http'')
      = Some (hm_append L h ''x-forwarded-proto'' (if b then ''https'' else ''http''))" for h b
    by (subst builder_header_valid) (simp_all add: visible_char_def token_char_def lowercase_names)
  show ?thesis by (simp only: real xff proto forwarding_def)
qed

lemma build_request_cases:
  "case build_request L a of
     Inl e \<Rightarrow> (e = BadTargetUri \<and> build_target_uri L (pa_address a) (pa_path a) (pa_query a) = None)
              \<or> (e = BuildRequest \<and> \<not> list_all (valid_pair L) (request_set (pa_headers_cfg a)))
   | Inr rq \<Rightarrow> build_target_uri L (pa_address a) (pa_path a) (pa_query a) = Some (rq_path rq)
              \<and> rq_method rq = pa_method a \<and> rq_version rq = pa_version a \<and> rq_body rq = pa_body a
              \<and> (\<forall>n. vals L (rq_headers rq) n = forwarded_vals L a n)"
proof (cases "build_target_uri L (pa_address a) (pa_path a) (pa_query a)")
  case None
  then show ?thesis by (simp add: build_request_def)
next
  case (Some u)
  define hv where "hv = Option.bind (extract_host (pa_address a)) (value_from_str L)"
  define out where "out = foldl (builder_header L) (Some (forwarding L a)) (request_set (pa_headers_cfg a))"
  have eq: "build_request L a =
      (case (case hv of None \<Rightarrow> out | Some v \<Rightarrow> map_option (\<lambda>h. hm_append L h ''host'' v) out) of
         None \<Rightarrow> Inl BuildRequest
       | Some h \<Rightarrow> Inr \<lparr>rq_method = pa_method a, rq_path = u, rq_query = None,
                       rq_version = pa_version a, rq_headers = h, rq_body = pa_body a\<rparr>)"
    by (simp only: build_request_def Some option.case Let_def own_headers hv_def out_def)
  show ?thesis
  proof (cases out)
    case None
    then have "\<not> list_all (valid_pair L) (request_set (pa_headers_cfg a))"
      unfolding out_def builder_foldl(1) .
    with None show ?thesis by (simp add: eq split: option.split)
  next
    case fold: (Some h)
    have "vals L h n = vals L (forwarding L a) n @ configured L (request_set (pa_headers_cfg a)) n" for n
      by (rule builder_foldl(2) [OF fold [unfolded out_def]])
    then show ?thesis
      by (auto simp: eq fold Some forwarding_def forwarded_vals_def vals_append vals_copy_headers
          hv_def [symmetric] split: option.split)
  qed
qed

lemma vals_build_response:
  "vals L (rs_headers (build_response L T now a r)) n
   = (if skip_header (pa_preserve_upgrade a) n then [] else vals L (rs_headers r) n)"
  by (simp add: build_response_def vals_copy_headers)

end

section \<open>The retry loop\<close>

lemma with_lb_addr:
  assumes "with_lb l f w = (Some i, w')" and "\<And>lb. lb_addr (snd (f lb)) = lb_addr lb"
  shows "fst (f (w_store w ! l)) = Some i" and "upstream_addr l i w' = lb_addr (w_store w ! l) i"
proof -
  obtain lb' where f: "f (w_store w ! l) = (Some i, lb')" and w': "w' = w\<lparr>w_store := (w_store w)[l := lb']\<rparr>"
    using assms(1) by (auto simp: with_lb_def split: prod.splits)
  have "lb_addr lb' = lb_addr (w_store w ! l)" using assms(2) [of "w_store w ! l"] f by simp
  then show "fst (f (w_store w ! l)) = Some i" "upstream_addr l i w' = lb_addr (w_store w ! l) i"
    using f by (cases "l < length (w_store w)"; simp add: w' upstream_addr_def list_update_beyond)+
qed

lemma select_sticky_addr: "lb_addr (snd (select_sticky lb v)) = lb_addr lb"
  by (auto simp: select_sticky_def lb.sel_addr split: option.split)

lemma with_lb_excluding:
  assumes "with_lb l (\<lambda>lb. select_excluding lb tried) w = (Some i, w')"
  shows "upstream_addr l i w' \<notin> set tried"
  using with_lb_addr [OF assms lb.sel_addr] lb.sel_Some [of "w_store w ! l" tried i]
  by (cases "select_excluding (w_store w ! l) tried") auto

text \<open>A round that finds no upstream has tried every available address.\<close>

definition exhausted :: "lb_ref \<Rightarrow> string list \<Rightarrow> 'env world \<Rightarrow> bool" where
  "exhausted l tried w =
     (\<forall>i. available (w_store w ! l) i \<longrightarrow> lb_addr (w_store w ! l) i \<in> set tried)"

lemma with_lb_None:
  assumes "with_lb l (\<lambda>lb. select_excluding lb tried) w = (None, w')"
  shows "exhausted l tried w'"
proof -
  obtain lb' where f: "select_excluding (w_store w ! l) tried = (None, lb')"
    and w': "w' = w\<lparr>w_store := (w_store w)[l := lb']\<rparr>"
    using assms by (auto simp: with_lb_def split: prod.splits)
  have same: "available lb' = available (w_store w ! l)" "lb_addr lb' = lb_addr (w_store w ! l)"
    using lb.sel_available [of "w_store w ! l" tried] lb.sel_addr [of "w_store w ! l" tried] f by simp_all
  have "available (w_store w ! l) i \<Longrightarrow> lb_addr (w_store w ! l) i \<in> set tried" for i
    by (rule lb.sel_None [OF f])
  with same show ?thesis
    by (cases "l < length (w_store w)") (auto simp: exhausted_def w' list_update_beyond)
qed

lemma select_sticky_None:
  "fst (select_sticky lb v) = None \<Longrightarrow> select_sticky lb v = select_excluding lb []"
  by (auto simp: select_sticky_def split: option.splits)

lemma with_lb_sticky_None:
  assumes "with_lb l (\<lambda>lb. select_sticky lb v) w = (None, w')"
  shows "exhausted l [] w'"
proof -
  have "fst (select_sticky (w_store w ! l) v) = None"
    using assms by (auto simp: with_lb_def split: prod.splits)
  from select_sticky_None [OF this] assms have "with_lb l (\<lambda>lb. select_excluding lb []) w = (None, w')"
    by (simp add: with_lb_def)
  then show ?thesis by (rule with_lb_None)
qed

lemma proxy_attempts_tried:
  assumes "proxy_attempts X ctx rq remote l sv body start attempt n tried w = (r, tried', w')"
    and "distinct tried" "attempt = length tried"
  shows "distinct tried' \<and> length tried' \<le> length tried + n
         \<and> (r = None \<and> length tried' < length tried + n \<longrightarrow> exhausted l tried' w')"
  using assms
proof (induction n arbitrary: attempt tried w)
  case (Suc n)
  obtain choice w1 where c: "choose_upstream l sv attempt tried w = (choice, w1)"
    by (cases "choose_upstream l sv attempt tried w")
  show ?case
  proof (cases choice)
    case None
    then have "exhausted l tried w1"
      using c Suc.prems(3) by (auto simp: choose_upstream_def split: if_splits
          dest: with_lb_sticky_None with_lb_None)
    with Suc.prems c None show ?thesis by simp
  next
    case (Some i)
    define addr where "addr = upstream_addr l i w1"
    have fresh: "distinct (tried @ [addr])"
      using c Some Suc.prems(2,3) by (auto simp: choose_upstream_def addr_def split: if_splits
          dest: with_lb_excluding)
    obtain result w2 where a: "counted_attempt X (make_attempt ctx rq remote addr body False) l i w1 = (result, w2)"
      by (cases "counted_attempt X (make_attempt ctx rq remote addr body False) l i w1")
    show ?thesis
    proof (cases result)
      case (Inl e)
      have "proxy_attempts X ctx rq remote l sv body start (Suc attempt) n (tried @ [addr]) w2 = (r, tried', w')"
        using Suc.prems(1) c Some a Inl by (simp add: addr_def Let_def)
      from Suc.IH [OF this fresh] Suc.prems(3) show ?thesis by simp
    next
      case (Inr x)
      with Suc.prems(1) c Some a have "r \<noteq> None" "tried' = tried @ [addr]"
        by (auto simp: addr_def Let_def)
      with fresh show ?thesis by auto
    qed
  qed
qed simp

section \<open>Connection counters\<close>

text \<open>
  The addresses and connection counters of all upstreams, the gauge that mirrors them, and the free
  permits of the semaphores.
\<close>

definition conn_view :: "'env world \<Rightarrow> (string \<times> usize) list list \<times> (string \<Rightarrow> 64 word) \<times> nat list" where
  "conn_view w =
     (map (\<lambda>lb. map (\<lambda>u. (rt_address u, active_connections u)) (lb_upstreams lb)) (w_store w),
      upstream_connections (w_metrics w), w_permits w)"

text \<open>Awaiting the client or an upstream leaves the counters as they were: the other tasks' share is constant.\<close>

definition quiet :: "('h, 'b, 'e, 'env) externals \<Rightarrow> bool" where
  "quiet X =
     ((\<forall>rq d w. conn_view (snd (x_request X rq d w)) = conn_view w)
      \<and> (\<forall>w. conn_view (x_collect_world X w) = conn_view w))"

lemma conn_view_simps [simp]:
  "conn_view (upd_metrics (count_request a b c) w) = conn_view w"
  "conn_view (upd_metrics (observe_duration a d) w) = conn_view w"
  "conn_view (upd_metrics (\<lambda>m. m\<lparr>retries_total := f m\<rparr>) w) = conn_view w"
  "conn_view (upd_metrics (\<lambda>m. m\<lparr>rate_limit_rejects := f m\<rparr>) w) = conn_view w"
  "conn_view (upd_metrics (\<lambda>m. m\<lparr>rate_limit_allows := f m\<rparr>) w) = conn_view w"
  "conn_view (record_response a s c t w) = conn_view w"
  "conn_view (w\<lparr>w_tunnels := ts\<rparr>) = conn_view w"
  "conn_view (w\<lparr>w_limiters := ls\<rparr>) = conn_view w"
  by (simp_all add: conn_view_def upd_metrics_def record_response_def Let_def)

lemma conn_view_gauge:
  "conn_view (upd_metrics (gauge_add a d) w)
   = (fst (conn_view w), (fst (snd (conn_view w)))(a := fst (snd (conn_view w)) a + d), snd (snd (conn_view w)))"
  by (simp add: conn_view_def upd_metrics_def gauge_add_def)

lemma conn_view_upstream:
  assumes "\<And>u. rt_address (f u) = rt_address u" "\<And>u. active_connections (f u) = g (active_connections u)"
  shows "conn_view (upd_upstream l i f w)
         = ((fst (conn_view w))[l := (fst (conn_view w) ! l)[i := map_prod id g (fst (conn_view w) ! l ! i)]],
            snd (conn_view w))"
proof (cases "l < length (w_store w)")
  case True
  then show ?thesis
    using assms by (simp add: conn_view_def upd_upstream_def update_upstream_def map_update list_update_beyond)
next
  case False
  then show ?thesis by (simp add: conn_view_def upd_upstream_def list_update_beyond)
qed

lemma inc_dec_fields:
  "rt_address (inc_connections u) = rt_address u" "active_connections (inc_connections u) = active_connections u + 1"
  "rt_address (dec_connections u) = rt_address u" "active_connections (dec_connections u) = active_connections u - 1"
  by (simp_all add: inc_connections_def dec_connections_def)

lemmas conn_view_inc = conn_view_upstream [of inc_connections "\<lambda>n. n + 1", OF inc_dec_fields(1,2)]
lemmas conn_view_dec = conn_view_upstream [of dec_connections "\<lambda>n. n - 1", OF inc_dec_fields(3,4)]

lemma update_back:
  assumes "\<And>x. g (f x) = x"
  shows "(xss[l := (xss ! l)[i := f (xss ! l ! i)]])
           [l := (xss[l := (xss ! l)[i := f (xss ! l ! i)]] ! l)
                   [i := g (xss[l := (xss ! l)[i := f (xss ! l ! i)]] ! l ! i)]] = xss"
proof (cases "l < length xss")
  case True
  then show ?thesis
    using assms by (cases "i < length (xss ! l)") (simp_all add: list_update_beyond)
qed (simp add: list_update_beyond)

text \<open>Increment, anything that leaves the counters alone, decrement: the counters are as before.\<close>

lemma conn_view_bracket:
  assumes "conn_view w2 = conn_view (upd_upstream l i inc_connections w)"
  shows "conn_view (upd_upstream l i dec_connections w2) = conn_view w"
  unfolding conn_view_dec assms conn_view_inc
  using update_back [of "map_prod id (\<lambda>n. n - 1)" "map_prod id (\<lambda>n. n + 1)" "fst (conn_view w)" l i]
  by (simp add: map_prod_def split: prod.split)

lemma upd_commute: "upd_metrics f (upd_upstream l i g w) = upd_upstream l i g (upd_metrics f w)"
  by (simp add: upd_metrics_def upd_upstream_def)

lemma gauge_back:
  assumes "conn_view w2 = conn_view (upd_metrics (gauge_add a 1) w)"
  shows "conn_view (upd_metrics (gauge_add a (- 1)) w2) = conn_view w"
  unfolding conn_view_gauge assms by simp

lemma attempt_proxy_quiet:
  assumes "quiet X" shows "conn_view (snd (attempt_proxy X a w)) = conn_view w"
proof -
  have "conn_view (snd (x_request X rq d w)) = conn_view w" for rq d
    using assms by (simp add: quiet_def)
  then show ?thesis
    by (auto simp: attempt_proxy_def split: sum.split option.split prod.splits) (metis snd_conv)+
qed

lemma counted_attempt_quiet:
  assumes "quiet X" shows "conn_view (snd (counted_attempt X a l i w)) = conn_view w"
proof -
  let ?w = "upd_metrics (gauge_add (pa_address a) 1) (upd_upstream l i inc_connections w)"
  obtain res w3 where at: "attempt_proxy X a ?w = (res, w3)" by (cases "attempt_proxy X a ?w")
  then have "conn_view w3 = conn_view ?w"
    using attempt_proxy_quiet [OF assms, of a ?w] by simp
  then have "conn_view (upd_metrics (gauge_add (pa_address a) (- 1)) w3) = conn_view (upd_upstream l i inc_connections w)"
    by (rule gauge_back)
  then have "conn_view (upd_upstream l i dec_connections (upd_metrics (gauge_add (pa_address a) (- 1)) w3)) = conn_view w"
    by (rule conn_view_bracket)
  then show ?thesis
    by (simp add: counted_attempt_def Let_def at flip: upd_commute)
qed

lemma with_lb_view:
  assumes "\<And>lb. lb_upstreams (snd (f lb)) = lb_upstreams lb"
  shows "conn_view (snd (with_lb l f w)) = conn_view w"
proof -
  obtain r lb' where f: "f (w_store w ! l) = (r, lb')" by (cases "f (w_store w ! l)")
  then have "lb_upstreams lb' = lb_upstreams (w_store w ! l)" using assms [of "w_store w ! l"] by simp
  then have "map (\<lambda>lb. map g (lb_upstreams lb)) ((w_store w)[l := lb'])
      = map (\<lambda>lb. map g (lb_upstreams lb)) (w_store w)" for g :: "upstream_runtime \<Rightarrow> string \<times> usize"
    by (cases "l < length (w_store w)"; subst list_eq_iff_nth_eq)
      (auto simp: nth_list_update list_update_beyond)
  then show ?thesis by (simp add: with_lb_def f conn_view_def)
qed

lemma select_upstreams:
  "lb_upstreams (snd (select_excluding lb ex)) = lb_upstreams lb"
  "lb_upstreams (snd (select_sticky lb v)) = lb_upstreams lb"
  "lb_upstreams (snd (select lb)) = lb_upstreams lb"
proof -
  show a: "lb_upstreams (snd (select_excluding lb ex)) = lb_upstreams lb" for ex
    using select_excluding_frame [of lb ex] by force
  show "lb_upstreams (snd (select_sticky lb v)) = lb_upstreams lb"
    by (auto simp: select_sticky_def a split: option.split)
  show "lb_upstreams (snd (select lb)) = lb_upstreams lb"
    by (simp add: select_def a)
qed

lemma choose_view: "conn_view (snd (choose_upstream l v k tried w)) = conn_view w"
  by (simp add: choose_upstream_def with_lb_view select_upstreams)

lemma proxy_attempts_quiet:
  assumes "quiet X"
  shows "conn_view (snd (snd (proxy_attempts X ctx rq remote l sv body start attempt n tried w))) = conn_view w"
proof (induction n arbitrary: attempt tried w)
  case (Suc n)
  obtain choice w1 where c: "choose_upstream l sv attempt tried w = (choice, w1)"
    by (cases "choose_upstream l sv attempt tried w")
  then have v1: "conn_view w1 = conn_view w" using choose_view [of l sv attempt tried w] by simp
  show ?case
  proof (cases choice)
    case None
    with c v1 show ?thesis by simp
  next
    case (Some i)
    let ?a = "make_attempt ctx rq remote (upstream_addr l i w1) body False"
    obtain result w2 where a: "counted_attempt X ?a l i w1 = (result, w2)"
      by (cases "counted_attempt X ?a l i w1")
    then have "conn_view w2 = conn_view w"
      using counted_attempt_quiet [OF assms, of ?a l i w1] v1 by simp
    with c Some a show ?thesis
      by (cases result) (simp_all add: Let_def Suc.IH)
  qed
qed simp

lemma proxy_upgrade_quiet:
  assumes "quiet X" "proxy_upgrade X rq l ctx remote start w = Some (r, w')"
  shows "conn_view w' = conn_view w"
proof -
  obtain choice w1 where c: "with_lb l select w = (choice, w1)" by (cases "with_lb l select w")
  then have v1: "conn_view w1 = conn_view w"
    using with_lb_view [of select l w, OF select_upstreams(3)] by simp
  show ?thesis
  proof (cases choice)
    case None
    with assms(2) c v1 show ?thesis by (auto simp: proxy_upgrade_def)
  next
    case (Some i)
    let ?a = "make_attempt ctx rq remote (upstream_addr l i w1) [] True"
    let ?w = "upd_upstream l i inc_connections w1"
    obtain res w2 where at: "attempt_proxy X ?a ?w = (res, w2)" by (cases "attempt_proxy X ?a ?w")
    then have "conn_view (upd_upstream l i dec_connections w2) = conn_view w1"
      using attempt_proxy_quiet [OF assms(1), of ?a ?w] by (intro conn_view_bracket) simp
    with assms(2) c Some at v1 show ?thesis
      by (cases res) (auto simp: proxy_upgrade_def Let_def split: if_splits)
  qed
qed

lemma reject_view:
  "reject L m s msg w = Some (r, w') \<Longrightarrow> conn_view w' = conn_view w"
  by (auto simp: reject_def)

lemma proxy_forward_quiet:
  assumes "quiet X" "proxy_forward X rq ctx remote start l sv w = Some (r, w')"
  shows "conn_view w' = conn_view w"
proof -
  have cw: "conn_view (x_collect_world X w) = conn_view w"
    using assms(1) by (simp add: quiet_def)
  have pa: "conn_view w2 = conn_view w"
    if "proxy_attempts X ctx rq remote l sv body start 0 n [] (x_collect_world X w) = (a, b, w2)" for body n a b w2
    using proxy_attempts_quiet [OF assms(1), of ctx rq remote l sv body start 0 n "[]" "x_collect_world X w"] that cw
    by simp
  show ?thesis
    using assms(2)
    by (auto simp: proxy_forward_def Let_def cw split: option.splits sum.splits body_limit_error.splits
        prod.splits dest!: reject_view dest: pa)
qed

lemma proxy_admitted_quiet:
  assumes "quiet X" "proxy_admitted X rq ctx remote start w = Some (r, w')"
  shows "conn_view w' = conn_view w"
  using assms(2)
  by (auto simp: proxy_admitted_def check_limiter_def Let_def split: option.splits if_splits prod.splits
      dest!: reject_view proxy_upgrade_quiet [OF assms(1)] proxy_forward_quiet [OF assms(1)])

lemma permit_bracket: "xs ! k \<noteq> 0 \<Longrightarrow> (xs[k := xs ! k - 1])[k := Suc (xs[k := xs ! k - 1] ! k)] = (xs :: nat list)"
  by (cases "k < length xs") (simp_all add: list_update_beyond)

lemma proxy_request_quiet:
  assumes "quiet X" "proxy_request X rq ctx remote w = Some (r, w')"
  shows "conn_view w' = conn_view w"
proof (cases "ctx_request_limit ctx")
  case None
  with assms proxy_admitted_quiet [OF assms(1)] show ?thesis
    by (simp add: proxy_request_def Let_def)
next
  case (Some k)
  show ?thesis
  proof (cases "w_permits w ! k = 0")
    case True
    with Some assms(2) show ?thesis
      by (auto simp: proxy_request_def Let_def dest: reject_view)
  next
    case False
    then obtain w2 where p: "proxy_admitted X rq ctx remote (w_clock w)
          (w\<lparr>w_permits := (w_permits w)[k := w_permits w ! k - 1]\<rparr>) = Some (r, w2)"
      and w': "w' = release_permit k w2"
      using Some assms(2) by (auto simp: proxy_request_def Let_def)
    have "conn_view w2 = conn_view (w\<lparr>w_permits := (w_permits w)[k := w_permits w ! k - 1]\<rparr>)"
      by (rule proxy_admitted_quiet [OF assms(1) p])
    with permit_bracket [OF False] show ?thesis
      by (simp add: w' release_permit_def conn_view_def)
  qed
qed

section \<open>Accounting\<close>

definition tot :: "'env world \<Rightarrow> string \<times> string \<times> string \<Rightarrow> u64" where
  "tot w = requests_total (w_metrics w)"

text \<open>The other tasks count nothing while this one waits.\<close>

definition uncounted :: "('h, 'b, 'e, 'env) externals \<Rightarrow> bool" where
  "uncounted X =
     ((\<forall>rq d w. tot (snd (x_request X rq d w)) = tot w) \<and> (\<forall>w. tot (x_collect_world X w) = tot w))"

lemma tot_simps [simp]:
  "tot (upd_metrics (count_request a b c) w) = (tot w)((a, b, c) := tot w (a, b, c) + 1)"
  "tot (upd_metrics (gauge_add u d) w) = tot w"
  "tot (upd_metrics (\<lambda>m. m\<lparr>retries_total := f m\<rparr>) w) = tot w"
  "tot (upd_metrics (\<lambda>m. m\<lparr>rate_limit_rejects := f m\<rparr>) w) = tot w"
  "tot (upd_metrics (\<lambda>m. m\<lparr>rate_limit_allows := f m\<rparr>) w) = tot w"
  "tot (upd_upstream l i g w) = tot w"
  "tot (record_response a s c t w) = (tot w)((a, show_nat s, c) := tot w (a, show_nat s, c) + 1)"
  "tot (w\<lparr>w_permits := ps\<rparr>) = tot w"
  "tot (w\<lparr>w_tunnels := ts\<rparr>) = tot w"
  "tot (w\<lparr>w_limiters := ls\<rparr>) = tot w"
  "tot (w\<lparr>w_store := st\<rparr>) = tot w"
  by (simp_all add: tot_def upd_metrics_def upd_upstream_def count_request_def record_response_def Let_def)

lemma tot_with_lb: "tot (snd (with_lb l f w)) = tot w"
  by (simp add: with_lb_def split: prod.split)

lemma tot_choose: "tot (snd (choose_upstream l v k tried w)) = tot w"
  by (simp add: choose_upstream_def tot_with_lb)

lemma attempt_proxy_tot:
  assumes "uncounted X" shows "tot (snd (attempt_proxy X a w)) = tot w"
proof -
  have "tot (snd (x_request X rq d w)) = tot w" for rq d
    using assms by (simp add: uncounted_def)
  then show ?thesis
    by (auto simp: attempt_proxy_def split: sum.split option.split prod.splits) (metis snd_conv)+
qed

lemma counted_attempt_tot:
  assumes "uncounted X" shows "tot (snd (counted_attempt X a l i w)) = tot w"
  using attempt_proxy_tot [OF assms, of a "upd_metrics (gauge_add (pa_address a) 1) (upd_upstream l i inc_connections w)"]
  by (auto simp: counted_attempt_def Let_def split: prod.split)

text \<open>One more request with the given method and status, for some upstream.\<close>

definition counted_once :: "string \<Rightarrow> nat \<Rightarrow> 'env world \<Rightarrow> 'env world \<Rightarrow> bool" where
  "counted_once method status w w' =
     (\<exists>up. tot w' = (tot w)((method, show_nat status, up) := tot w (method, show_nat status, up) + 1))"

lemma proxy_attempts_tot:
  assumes "uncounted X"
    and "proxy_attempts X ctx rq remote l sv body start attempt n tried w = (r, tried', w')"
  shows "case r of None \<Rightarrow> tot w' = tot w | Some x \<Rightarrow> counted_once (rq_method rq) (rs_status x) w w'"
  using assms(2)
proof (induction n arbitrary: attempt tried w)
  case (Suc n)
  obtain choice w1 where c: "choose_upstream l sv attempt tried w = (choice, w1)"
    by (cases "choose_upstream l sv attempt tried w")
  then have v1: "tot w1 = tot w" using tot_choose [of l sv attempt tried w] by simp
  show ?case
  proof (cases choice)
    case None
    with c v1 Suc.prems show ?thesis by auto
  next
    case (Some i)
    let ?a = "make_attempt ctx rq remote (upstream_addr l i w1) body False"
    obtain result w2 where a: "counted_attempt X ?a l i w1 = (result, w2)"
      by (cases "counted_attempt X ?a l i w1")
    then have v2: "tot w2 = tot w"
      using counted_attempt_tot [OF assms(1), of ?a l i w1] v1 by simp
    show ?thesis
    proof (cases result)
      case (Inl e)
      with Suc.prems c Some a
      have "proxy_attempts X ctx rq remote l sv body start (Suc attempt) n (tried @ [upstream_addr l i w1]) w2 = (r, tried', w')"
        by (simp add: Let_def)
      from Suc.IH [OF this] v2 show ?thesis by (simp add: counted_once_def split: option.splits)
    next
      case (Inr x)
      with Suc.prems c Some a v2 show ?thesis
        by (auto simp: Let_def counted_once_def)
    qed
  qed
qed auto

lemma error_response_status: "error_response L s msg = Some r \<Longrightarrow> rs_status r = s"
  by (auto simp: error_response_def)

lemma reject_counted: "reject L m s msg w = Some (r, w') \<Longrightarrow> counted_once m (rs_status r) w w'"
  by (auto simp: reject_def counted_once_def dest!: error_response_status)

lemma proxy_upgrade_tot:
  assumes "uncounted X" "proxy_upgrade X rq l ctx remote start w = Some (r, w')"
  shows "counted_once (rq_method rq) (rs_status r) w w' \<or> (tot w' = tot w \<and> rs_status r \<in> {502, 503})"
proof -
  obtain choice w1 where c: "with_lb l select w = (choice, w1)" by (cases "with_lb l select w")
  then have v1: "tot w1 = tot w" using tot_with_lb [of l select w] by simp
  show ?thesis
  proof (cases choice)
    case None
    with assms(2) c v1 show ?thesis by (auto simp: proxy_upgrade_def dest: error_response_status)
  next
    case (Some i)
    let ?a = "make_attempt ctx rq remote (upstream_addr l i w1) [] True"
    let ?w = "upd_upstream l i inc_connections w1"
    obtain res w2 where at: "attempt_proxy X ?a ?w = (res, w2)" by (cases "attempt_proxy X ?a ?w")
    then have "tot w2 = tot w"
      using attempt_proxy_tot [OF assms(1), of ?a ?w] v1 by simp
    with assms(2) c Some at show ?thesis
      by (cases res) (auto simp: proxy_upgrade_def Let_def counted_once_def dest: error_response_status split: if_splits)
  qed
qed

lemma proxy_forward_tot:
  assumes "uncounted X" "proxy_forward X rq ctx remote start l sv w = Some (r, w')"
  shows "counted_once (rq_method rq) (rs_status r) w w' \<or> (tot w' = tot w \<and> rs_status r = 400)"
proof -
  let ?w = "x_collect_world X w"
  have cw: "tot ?w = tot w" using assms(1) by (simp add: uncounted_def)
  consider (no) w2 s msg where "reject (x_http X) (rq_method rq) s msg w2 = Some (r, w')" "tot w2 = tot w"
    | (bad) "error_response (x_http X) 400 ''Bad Request'' = Some r" "w' = ?w"
    | (ok) body n tried where "proxy_attempts X ctx rq remote l sv body start 0 n [] ?w = (Some r, tried, w')"
    using assms(2) proxy_attempts_tot [OF assms(1)] cw
    by (fastforce simp: proxy_forward_def Let_def split: option.splits sum.splits body_limit_error.splits prod.splits)
  then show ?thesis
  proof cases
    case no
    with reject_counted [OF no(1)] show ?thesis by (simp add: counted_once_def)
  next
    case bad
    then show ?thesis using cw by (auto dest: error_response_status)
  next
    case ok
    from proxy_attempts_tot [OF assms(1) this] cw show ?thesis by (simp add: counted_once_def)
  qed
qed

lemma proxy_admitted_tot:
  assumes "uncounted X" "proxy_admitted X rq ctx remote start w = Some (r, w')"
  shows "counted_once (rq_method rq) (rs_status r) w w'
         \<or> (tot w' = tot w
            \<and> (rs_status r = 400 \<or> (is_upgrade_request (x_http X) rq \<and> rs_status r \<in> {502, 503})))"
proof -
  consider (no) w2 s msg where "reject (x_http X) (rq_method rq) s msg w2 = Some (r, w')" "tot w2 = tot w"
    | (up) w2 l where "is_upgrade_request (x_http X) rq" "proxy_upgrade X rq l ctx remote start w2 = Some (r, w')"
        "tot w2 = tot w"
    | (fwd) w2 l sv where "proxy_forward X rq ctx remote start l sv w2 = Some (r, w')" "tot w2 = tot w"
    using assms(2)
    by (fastforce simp: proxy_admitted_def check_limiter_def Let_def split: option.splits if_splits prod.splits)
  then show ?thesis
  proof cases
    case no
    with reject_counted [OF no(1)] show ?thesis by (simp add: counted_once_def)
  next
    case up
    with proxy_upgrade_tot [OF assms(1) up(2)] show ?thesis by (auto simp: counted_once_def)
  next
    case fwd
    with proxy_forward_tot [OF assms(1) fwd(1)] show ?thesis by (auto simp: counted_once_def)
  qed
qed

section \<open>Cookies\<close>

text \<open>A \<open>Cookie\<close> header as a client writes it: the pairs, separated by a semicolon and a space.\<close>

fun cookie_header :: "(string \<times> string) list \<Rightarrow> string" where
  "cookie_header [] = []"
| "cookie_header [(k, v)] = k @ ''='' @ v"
| "cookie_header ((k, v) # kvs) = k @ ''='' @ v @ ''; '' @ cookie_header kvs"

definition cookie_pair :: "string \<times> string \<Rightarrow> bool" where
  "cookie_pair kv =
     (plain (fst kv) \<and> plain (snd kv) \<and> CHR ''='' \<notin> set (fst kv) \<and> CHR '';'' \<notin> set (fst kv) \<union> set (snd kv))"

lemma plain_eq [simp]: "plain [CHR ''='']"
  by (simp add: ascii_ws_def)

lemma cookie_in_part:
  assumes "cookie_pair (k, v)" "part = k @ CHR ''='' # v \<or> part = CHR '' '' # k @ CHR ''='' # v"
  shows "cookie_in (part # parts) name = (if k = name then Some v else cookie_in parts name)"
proof -
  have pl: "plain k" "plain v" "CHR ''='' \<notin> set k"
    using assms(1) by (auto simp: cookie_pair_def)
  have "plain (k @ CHR ''='' # v)"
    using pl plain_eq by simp
  then have "trim part = k @ CHR ''='' # v"
    using assms(2) trim_plain trim_space_plain by blast
  then show ?thesis
    using pl by (simp add: split_once_append trim_plain)
qed

lemma split_cookie_header:
  assumes "list_all cookie_pair ((k, v) # kvs)"
  shows "split (CHR '';'') (cookie_header ((k, v) # kvs))
         = (k @ CHR ''='' # v)
           # (if kvs = [] then [] else (CHR '' '' # hd (split (CHR '';'') (cookie_header kvs)))
                # tl (split (CHR '';'') (cookie_header kvs)))"
proof (cases kvs)
  case Nil
  then show ?thesis using assms by (simp add: split_no_sep cookie_pair_def)
next
  case (Cons kv kvs')
  have header: "cookie_header ((k, v) # kvs) = (k @ CHR ''='' # v) @ CHR '';'' # CHR '' '' # cookie_header kvs"
    using Cons by simp
  have sep: "CHR '';'' \<notin> set (k @ CHR ''='' # v)"
    using assms by (simp add: cookie_pair_def)
  have space: "split (CHR '';'') (CHR '' '' # s) = (CHR '' '' # hd (split (CHR '';'') s)) # tl (split (CHR '';'') s)" for s
    by (cases "split (CHR '';'') s") simp_all
  show ?thesis
    unfolding header split_append [OF sep] space using Cons by simp
qed

lemma cookie_in_header:
  assumes "list_all cookie_pair kvs"
  shows "cookie_in (split (CHR '';'') (cookie_header kvs)) name = map_of kvs name"
    and "cookie_in ((CHR '' '' # hd (split (CHR '';'') (cookie_header kvs))) # tl (split (CHR '';'') (cookie_header kvs))) name
         = map_of kvs name"
proof -
  have "cookie_in (split (CHR '';'') (cookie_header kvs)) name = map_of kvs name
        \<and> cookie_in ((CHR '' '' # hd (split (CHR '';'') (cookie_header kvs))) # tl (split (CHR '';'') (cookie_header kvs))) name
          = map_of kvs name"
    using assms
  proof (induction kvs)
    case Nil
    have "trim [] = []" "trim '' '' = []" using trim_plain [of "[]"] trim_space_plain [of "[]"] by simp_all
    then show ?case by simp
  next
    case (Cons kv kvs)
    obtain k v where kv: "kv = (k, v)" by (cases kv)
    note sp = split_cookie_header [OF Cons.prems [unfolded kv]]
    have pair: "cookie_pair (k, v)" using Cons.prems kv by simp
    show ?case
      unfolding kv sp using Cons pair
      by (auto simp: cookie_in_part [OF pair] simp del: cookie_in.simps(2))
  qed
  then show "cookie_in (split (CHR '';'') (cookie_header kvs)) name = map_of kvs name"
    and "cookie_in ((CHR '' '' # hd (split (CHR '';'') (cookie_header kvs))) # tl (split (CHR '';'') (cookie_header kvs))) name
         = map_of kvs name" by simp_all
qed

section \<open>Answers\<close>

context http_crate
begin

lemma set_headers_vals:
  "vals L (foldl (set_header L) h kvs) n
   = (if configured L kvs n = [] then vals L h n else [last (configured L kvs n)])"
proof (induction kvs arbitrary: h)
  case (Cons kv kvs)
  obtain k v where kv: "kv = (k, v)" by (cases kv)
  show ?case
    unfolding kv foldl.simps Cons.IH
    by (auto simp: set_header_def vals_insert split: option.split)
qed simp

lemma error_response_total:
  "\<exists>h. error_response L s msg = Some \<lparr>rs_status = s, rs_version = HTTP_11, rs_headers = h, rs_body = Full msg\<rparr>"
proof -
  have "builder_header L (Some h) (''Content-Type'', ''text/plain; charset=utf-8'') \<noteq> None"
    "builder_header L (Some h) (''Connection'', ''close'') \<noteq> None" for h
    by (subst builder_header_valid; simp add: token_char_def visible_char_def)+
  then have "\<exists>h. builder_header L (builder_header L (Some (hm_empty L)) (''Content-Type'', ''text/plain; charset=utf-8''))
      (''Connection'', ''close'') = Some h"
    by (metis not_None_eq)
  then show ?thesis
    by (auto simp: error_response_def)
qed

lemma reject_total:
  "\<exists>h. reject L m s msg w
       = Some (\<lparr>rs_status = s, rs_version = HTTP_11, rs_headers = h, rs_body = Full msg\<rparr>,
               upd_metrics (count_request m (show_nat s) ''none'') w)"
  using error_response_total [of s msg] by (auto simp: reject_def)

end

text \<open>The values of every header name in the response for the client of upstream \<open>addr\<close>.\<close>

definition returned_vals :: "'h http_lib \<Rightarrow> proxy_context \<Rightarrow> string \<Rightarrow> 'h \<Rightarrow> string \<Rightarrow> string list" where
  "returned_vals L ctx addr h n =
     (let own = (if is_hop_by_hop n then [] else vals L h n)
                @ (case ctx_sticky ctx of
                     Some s \<Rightarrow> if n = ''set-cookie''
                               then (case value_from_str L (sticky_cookie s addr) of None \<Rightarrow> [] | Some v \<Rightarrow> [v])
                               else []
                   | None \<Rightarrow> []);
          filled = (if ctx_security_headers ctx \<and> own = []
                    then (case map_of (map (\<lambda>(k, v). (to_ascii_lowercase k, v)) security_pairs) n of
                            None \<Rightarrow> [] | Some v \<Rightarrow> [v])
                    else own);
          conf = configured L (response_set (ctx_headers ctx)) n
      in if conf = [] then filled else [last conf])"

context http_crate
begin

lemma vals_finish_headers:
  "vals L (finish_headers L ctx addr h) n =
     (let own = vals L h n
                @ (case ctx_sticky ctx of
                     Some s \<Rightarrow> if n = ''set-cookie''
                               then (case value_from_str L (sticky_cookie s addr) of None \<Rightarrow> [] | Some v \<Rightarrow> [v])
                               else []
                   | None \<Rightarrow> []);
          filled = (if ctx_security_headers ctx \<and> own = []
                    then (case map_of (map (\<lambda>(k, v). (to_ascii_lowercase k, v)) security_pairs) n of
                            None \<Rightarrow> [] | Some v \<Rightarrow> [v])
                    else own);
          conf = configured L (response_set (ctx_headers ctx)) n
      in if conf = [] then filled else [last conf])"
proof -
  define h1 where "h1 = (case ctx_sticky ctx of
                 None \<Rightarrow> h
               | Some s \<Rightarrow>
                   (case value_from_str L (sticky_cookie s addr) of
                      None \<Rightarrow> h
                    | Some v \<Rightarrow> hm_append L h ''set-cookie'' v))"
  have v1: "vals L h1 n = vals L h n
                @ (case ctx_sticky ctx of
                     Some s \<Rightarrow> if n = ''set-cookie''
                               then (case value_from_str L (sticky_cookie s addr) of None \<Rightarrow> [] | Some v \<Rightarrow> [v])
                               else []
                   | None \<Rightarrow> [])"
    by (auto simp: h1_def vals_append split: option.split)
  have "finish_headers L ctx addr h
        = foldl (set_header L) (if ctx_security_headers ctx then apply_security_headers L h1 else h1)
            (response_set (ctx_headers ctx))"
    by (simp add: finish_headers_def h1_def Let_def)
  then show ?thesis
    unfolding set_headers_vals v1 [symmetric] Let_def by (simp add: set_headers_vals vals_security_headers)
qed

end

lemma admitted_streamed:
  assumes "proxy_admitted X rq ctx remote start w = Some (r, w')" "rs_body r = Streamed b"
  shows "(case ctx_acl ctx of None \<Rightarrow> True | Some a \<Rightarrow> is_allowed a (sa_ip remote))
         \<and> (case ctx_rate_limiter ctx of None \<Rightarrow> True
            | Some k \<Rightarrow> \<exists>rl. check (w_limiters w ! k) (w_clock w) (sa_ip remote) = Some (True, rl))
         \<and> resolve (ctx_router ctx) (rq_path rq) \<noteq> None"
proof -
  have rej: "rs_body x \<noteq> Streamed b" if "reject L m s msg w1 = Some (x, w2)" for L m s msg w1 x w2
    using that by (auto simp: reject_def error_response_def)
  show ?thesis
    using assms by (auto simp: proxy_admitted_def check_limiter_def Let_def dest: rej
        split: option.splits if_splits prod.splits)
qed

lemma streamed_admitted:
  assumes "proxy_request X rq ctx remote w = Some (r, w')" "rs_body r = Streamed b"
  shows "(case ctx_acl ctx of None \<Rightarrow> True | Some a \<Rightarrow> is_allowed a (sa_ip remote))
         \<and> (case ctx_rate_limiter ctx of None \<Rightarrow> True
            | Some k \<Rightarrow> \<exists>rl. check (w_limiters w ! k) (w_clock w) (sa_ip remote) = Some (True, rl))
         \<and> resolve (ctx_router ctx) (rq_path rq) \<noteq> None
         \<and> (case ctx_request_limit ctx of None \<Rightarrow> True | Some k \<Rightarrow> 0 < w_permits w ! k)"
proof (cases "ctx_request_limit ctx")
  case None
  then have "proxy_admitted X rq ctx remote (w_clock w) w = Some (r, w')"
    using assms(1) by (simp add: proxy_request_def Let_def)
  from admitted_streamed [OF this assms(2)] None show ?thesis by simp
next
  case (Some k)
  have "w_permits w ! k \<noteq> 0"
    using assms Some by (auto simp: proxy_request_def reject_def error_response_def Let_def split: if_splits)
  then obtain w2 where "proxy_admitted X rq ctx remote (w_clock w)
        (w\<lparr>w_permits := (w_permits w)[k := w_permits w ! k - 1]\<rparr>) = Some (r, w2)"
    using assms(1) Some by (auto simp: proxy_request_def Let_def)
  from admitted_streamed [OF this assms(2)] Some \<open>w_permits w ! k \<noteq> 0\<close> show ?thesis
    by (simp split: option.splits)
qed

text \<open>The status with which a request is turned away before any upstream is chosen.\<close>

definition admission_status :: "proxy_context \<Rightarrow> ip_addr \<Rightarrow> string \<Rightarrow> 'env world \<Rightarrow> nat option" where
  "admission_status ctx ip path w =
     (if (case ctx_acl ctx of Some a \<Rightarrow> \<not> is_allowed a ip | None \<Rightarrow> False) then Some 403
      else (let no_route = (if resolve (ctx_router ctx) path = None then Some 404 else None)
            in case ctx_rate_limiter ctx of
                 None \<Rightarrow> no_route
               | Some k \<Rightarrow>
                   (case check (w_limiters w ! k) (w_clock w) ip of
                      None \<Rightarrow> None
                    | Some (ok, rl) \<Rightarrow> if ok then no_route else Some 429)))"

definition gate_status :: "proxy_context \<Rightarrow> ip_addr \<Rightarrow> string \<Rightarrow> 'env world \<Rightarrow> nat option" where
  "gate_status ctx ip path w =
     (if (case ctx_request_limit ctx of Some k \<Rightarrow> w_permits w ! k = 0 | None \<Rightarrow> False) then Some 503
      else admission_status ctx ip path w)"

text \<open>What turning a request away leaves alone.\<close>

definition turned_away :: "string \<Rightarrow> nat \<Rightarrow> 'env world \<Rightarrow> ('h, 'b) proxy_response \<times> 'env world \<Rightarrow> bool" where
  "turned_away method s w res =
     (case res of (r, w') \<Rightarrow>
        rs_status r = s \<and> (\<exists>msg. rs_body r = Full msg)
        \<and> w_store w' = w_store w \<and> w_env w' = w_env w \<and> w_permits w' = w_permits w
        \<and> w_tunnels w' = w_tunnels w \<and> (s \<in> {503, 403} \<longrightarrow> w_limiters w' = w_limiters w)
        \<and> tot w' = (tot w)((method, show_nat s, ''none'') := tot w (method, show_nat s, ''none'') + 1))"

lemma reject_turned_away:
  assumes "http_crate L" "w_store w1 = w_store w" "w_env w1 = w_env w" "w_permits w1 = w_permits w"
    "w_tunnels w1 = w_tunnels w" "s \<in> {503, 403} \<longrightarrow> w_limiters w1 = w_limiters w" "tot w1 = tot w"
  shows "\<exists>res :: ('h, 'b) proxy_response \<times> 'env world. reject L m s msg w1 = Some res \<and> turned_away m s w res"
proof -
  obtain h where h: "reject L m s msg w1
      = Some (\<lparr>rs_status = s, rs_version = HTTP_11, rs_headers = h, rs_body = Full msg\<rparr> :: ('h, 'b) proxy_response,
               upd_metrics (count_request m (show_nat s) ''none'') w1)"
    using http_crate.reject_total [OF assms(1)] by blast
  have "turned_away m s w (\<lparr>rs_status = s, rs_version = HTTP_11, rs_headers = h, rs_body = Full msg\<rparr> :: ('h, 'b) proxy_response,
               upd_metrics (count_request m (show_nat s) ''none'') w1)"
    using assms(2-) by (simp add: turned_away_def) (simp add: upd_metrics_def)
  with h show ?thesis by blast
qed

lemma admitted_turned_away:
  assumes L: "http_crate (x_http X)" and s: "admission_status ctx (sa_ip remote) (rq_path rq) w = Some s"
  shows "\<exists>res. proxy_admitted X rq ctx remote start w = Some res \<and> turned_away (rq_method rq) s w res"
proof (cases "case ctx_acl ctx of Some a \<Rightarrow> \<not> is_allowed a (sa_ip remote) | None \<Rightarrow> False")
  case True
  with s have "s = 403" by (simp add: admission_status_def)
  with True reject_turned_away [OF L, of w w 403 "rq_method rq" "''Forbidden''"] show ?thesis
    by (simp add: proxy_admitted_def Let_def)
next
  case acl: False
  show ?thesis
  proof (cases "ctx_rate_limiter ctx")
    case None
    with s acl have "s = 404" "resolve (ctx_router ctx) (rq_path rq) = None"
      by (auto simp: admission_status_def Let_def split: if_splits)
    with acl None reject_turned_away [OF L, of w w 404 "rq_method rq" "''No route matched''"] show ?thesis
      by (simp add: proxy_admitted_def Let_def)
  next
    case (Some k)
    then obtain ok rl where ck: "check (w_limiters w ! k) (w_clock w) (sa_ip remote) = Some (ok, rl)"
      using s acl by (auto simp: admission_status_def Let_def split: option.splits)
    define w1 where "w1 = w\<lparr>w_limiters := (w_limiters w)[k := rl]\<rparr>"
    show ?thesis
    proof (cases ok)
      case True
      let ?w2 = "upd_metrics (\<lambda>m. m\<lparr>rate_limit_allows := rate_limit_allows m + 1\<rparr>) w1"
      have "s = 404" "resolve (ctx_router ctx) (rq_path rq) = None"
        using s acl Some ck True by (auto simp: admission_status_def Let_def split: if_splits)
      moreover have "\<exists>res. reject (x_http X) (rq_method rq) 404 ''No route matched'' ?w2 = Some res
                       \<and> turned_away (rq_method rq) 404 w res"
        by (rule reject_turned_away [OF L]) (simp_all add: w1_def upd_metrics_def tot_def)
      ultimately show ?thesis
        using acl Some ck True by (simp add: proxy_admitted_def check_limiter_def Let_def w1_def)
    next
      case False
      let ?w2 = "upd_metrics (\<lambda>m. m\<lparr>rate_limit_rejects := rate_limit_rejects m + 1\<rparr>) w1"
      have "s = 429"
        using s acl Some ck False by (auto simp: admission_status_def Let_def)
      moreover have "\<exists>res. reject (x_http X) (rq_method rq) 429 ''Too Many Requests'' ?w2 = Some res
                       \<and> turned_away (rq_method rq) 429 w res"
        by (rule reject_turned_away [OF L]) (simp_all add: w1_def upd_metrics_def tot_def)
      ultimately show ?thesis
        using acl Some ck False by (simp add: proxy_admitted_def check_limiter_def Let_def w1_def)
    qed
  qed
qed

lemma admission_status_permits [simp]:
  "admission_status ctx ip path (w\<lparr>w_permits := ps\<rparr>) = admission_status ctx ip path w"
  by (auto simp: admission_status_def Let_def split: option.split)

lemma turned_away_permit:
  assumes "turned_away m s (w\<lparr>w_permits := (w_permits w)[k := w_permits w ! k - 1]\<rparr>) (r, w')" "w_permits w ! k \<noteq> 0"
  shows "turned_away m s w (r, release_permit k w')"
  using assms(1) permit_bracket [OF assms(2)] by (simp add: turned_away_def release_permit_def)

section \<open>Properties\<close>


text \<open>C39. The headers a client receives from an upstream are exactly these, for every header name: the
  upstream's values except the hop-by-hop names, the sticky cookie, the default security headers where
  the name has no value, and a configured value in place of all others.\<close>

theorem returned_headers_exact:
  assumes "http_crate L"
  shows "vals L (finish_headers L ctx addr
                   (rs_headers (build_response L T now (make_attempt ctx rq remote addr body False) r))) n
         = returned_vals L ctx addr (rs_headers r) n"
  using http_crate.vals_finish_headers [OF assms, of ctx addr
      "rs_headers (build_response L T now (make_attempt ctx rq remote addr body False) r)" n]
  by (simp add: returned_vals_def http_crate.vals_build_response [OF assms] make_attempt_def skip_header_def)


text \<open>An upstream's answer reaches only admitted clients: whenever the response carries an
  upstream's body, the access list allowed the address, the rate limiter allowed the request, a route
  matched and a request permit was free.\<close>

theorem served_only_if_admitted:
  assumes "proxy_request X rq ctx remote w = Some (r, w')" "rs_body r = Streamed b"
  shows "(case ctx_acl ctx of None \<Rightarrow> True | Some a \<Rightarrow> is_allowed a (sa_ip remote))
         \<and> (case ctx_rate_limiter ctx of None \<Rightarrow> True
            | Some k \<Rightarrow> \<exists>rl. check (w_limiters w ! k) (w_clock w) (sa_ip remote) = Some (True, rl))
         \<and> resolve (ctx_router ctx) (rq_path rq) \<noteq> None
         \<and> (case ctx_request_limit ctx of None \<Rightarrow> True | Some k \<Rightarrow> 0 < w_permits w ! k)"
  by (rule streamed_admitted [OF assms])

text \<open>C2. Retries are safe and complete: no address is tried twice, there are never more attempts than
  configured, a request that may not be retried is tried at most once, and when the loop gives up with
  attempts left, every upstream that is available at that moment has been tried. This holds whatever
  the other tasks do to the balancer while an attempt is waiting.\<close>

theorem retries_distinct_and_complete:
  assumes "proxy_attempts X ctx rq remote l sv body start 0
             (unat (max_attempts ctx (rq_method rq) body)) [] w = (r, tried, w')"
  shows "distinct tried
         \<and> length tried \<le> unat (max_attempts ctx (rq_method rq) body)
         \<and> (\<not> may_retry ctx (rq_method rq) body \<longrightarrow> length tried \<le> 1)
         \<and> (r = None \<and> length tried < unat (max_attempts ctx (rq_method rq) body) \<longrightarrow> exhausted l tried w')"
  using proxy_attempts_tried [OF assms] by (auto simp: max_attempts_def)

text \<open>Handling a request leaks nothing: on every path, with any number of failed attempts, the
  connection counters of all upstreams, the gauge that mirrors them and the free request permits are
  the same after the request as before it, provided that what runs while it waits leaves them alone.\<close>

theorem request_leaves_counters:
  assumes "quiet X" "proxy_request X rq ctx remote w = Some (r, w')"
  shows "conn_view w' = conn_view w"
  by (rule proxy_request_quiet [OF assms])


text \<open>The sticky cookie brings a client back: the pair the response sets is the name and the address
  of the upstream that answered, and a later request whose cookies bind the name to an address (the
  first binding counts) is sent to an available upstream with exactly that address whenever there is
  one.\<close>

theorem sticky_cookie_roundtrip:
  assumes "http_crate L" "list_all cookie_pair kvs" "list_all visible_char (cookie_header kvs)"
    and "hm_get L h ''cookie'' = Some (cookie_header kvs)" "map_of kvs (cookie_name s) = Some addr"
    and "available lb i" "lb_addr lb i = addr"
  shows "hd (split (CHR '';'') (sticky_cookie s addr)) = cookie_header [(cookie_name s, addr)]
         \<and> (\<exists>j. select_sticky lb (extract_cookie L h (cookie_name s)) = (Some j, lb)
                \<and> available lb j \<and> lb_addr lb j = addr)"
proof -
  have "extract_cookie L h (cookie_name s) = Some addr"
    using assms(3-5) cookie_in_header(1) [OF assms(2)]
    by (simp add: extract_cookie_def http_crate.to_str_visible [OF assms(1)])
  moreover have "\<exists>j. select_sticky lb (Some addr) = (Some j, lb) \<and> available lb j \<and> lb_addr lb j = addr"
    by (rule select_sticky_hit [OF assms(6,7)])
  moreover have "CHR '';'' \<notin> set (cookie_header [(cookie_name s, addr)])"
    using map_of_SomeD [OF assms(5)] assms(2) by (auto simp: list_all_iff cookie_pair_def)
  then have "hd (split (CHR '';'') (sticky_cookie s addr)) = cookie_header [(cookie_name s, addr)]"
    using split_append [of "CHR '';''" "cookie_header [(cookie_name s, addr)]"
        "'' Path=/; Max-Age='' @ show_nat (unat (max_age_secs s)) @ ''; HttpOnly; SameSite=Lax''"]
    by (simp add: sticky_cookie_def)
  ultimately show ?thesis by simp
qed

section \<open>Witnesses\<close>

text \<open>One upstream behind the default route, a client that sends no body, an upstream that answers 200.\<close>

definition any_uri :: "string \<Rightarrow> uri option" where
  "any_uri s = Some \<lparr>scheme_str = None, uri_host = None\<rparr>"

definition answering :: "((string \<times> string) list, unit, string, unit) externals" where
  "answering =
     \<lparr>x_http = alist_http any_uri, x_timer = exact_timer,
      x_body = \<lparr>poll_frame = (\<lambda>_ b. Some (Ready None, b)), is_end_stream = (\<lambda>_. True), size_hint = (\<lambda>_. (0, None))\<rparr>,
      x_display = id, x_collect = (\<lambda>w B. collect_run B [w_clock w] []), x_collect_world = id,
      x_request = (\<lambda>rq d w. (Some (Inr \<lparr>rs_status = 200, rs_version = HTTP_11, rs_headers = [], rs_body = ()\<rparr>), w))\<rparr>"

definition silent :: "((string \<times> string) list, unit, string, unit) externals" where
  "silent = answering\<lparr>x_request := (\<lambda>rq d w. (None, w))\<rparr>"

definition ctx_example :: proxy_context where
  "ctx_example =
     \<lparr>ctx_router = \<lparr>router_routes = [], router_default = Some 0\<rparr>, ctx_retries = 2,
      ctx_request_timeout = 10 ^ 9, ctx_sticky = None, ctx_headers = \<lparr>request_set = [], response_set = []\<rparr>,
      ctx_rate_limiter = None, ctx_max_body_bytes = 1024, ctx_retry_idempotent_only = True,
      ctx_force_retry_with_body = False, ctx_acl = None, ctx_security_headers = False,
      ctx_client_is_tls = False, ctx_request_limit = Some 0, ctx_idle_timeout = 10 ^ 9\<rparr>"

definition rq_example :: "((string \<times> string) list, unit) request" where
  "rq_example =
     \<lparr>rq_method = ''GET'', rq_path = ''/x'', rq_query = None, rq_version = HTTP_11,
      rq_headers = [(''host'', ''h''), (''te'', ''trailers''), (''accept'', ''text'')], rq_body = ()\<rparr>"

definition world_example :: "unit world" where
  "world_example =
     \<lparr>w_store = [from_upstreams [\<lparr>address = ''http://a'', weight = 1\<rparr>, \<lparr>address = ''http://b'', weight = 1\<rparr>] LeastConnections],
      w_limiters = [], w_permits = [1], w_metrics = metrics_new, w_tunnels = [], w_clock = 5, w_env = ()\<rparr>"

definition client_example :: socket_addr where
  "client_example = \<lparr>sa_ip = V4 0xC0000201, sa_port = 1\<rparr>"

lemma alist_any: "http_crate (x_http answering)" "http_crate (x_http silent)"
  by (simp_all add: answering_def silent_def alist_http_crate)

lemma quiet_examples: "quiet answering" "quiet silent" "uncounted answering"
  by (simp_all add: quiet_def uncounted_def answering_def silent_def)


theorem returned_headers_exact_witness:
  "vals (alist_http any_uri) (finish_headers (alist_http any_uri) ctx_example ''http://a''
      (rs_headers (build_response (alist_http any_uri) exact_timer 0
         (make_attempt ctx_example rq_example client_example ''http://a'' [] False)
         \<lparr>rs_status = 200, rs_version = HTTP_11, rs_headers = [(''connection'', ''close''), (''x'', ''y'')], rs_body = ()\<rparr>)))
      ''connection'' = []"
  by (subst returned_headers_exact [OF alist_http_crate])
    (simp add: returned_vals_def is_hop_by_hop_def ctx_example_def)

text \<open>The answering upstream, step by step.\<close>

lemma attempt_example:
  assumes "request_set (ctx_headers ctx) = []"
  shows "\<exists>r. attempt_proxy answering (make_attempt ctx rq_example remote ''http://a'' [] False) w = (Inr r, w)
             \<and> rs_status r = 200 \<and> (\<exists>b. rs_body r = Streamed b)"
proof -
  let ?L = "alist_http any_uri"
  let ?a = "make_attempt ctx rq_example remote ''http://a'' [] False"
  have "build_target_uri ?L (pa_address ?a) (pa_path ?a) (pa_query ?a) \<noteq> None"
    by (simp add: build_target_uri_def alist_http_def any_uri_def Let_def)
  moreover have "list_all (valid_pair ?L) (request_set (pa_headers_cfg ?a))"
    by (simp add: make_attempt_def assms)
  ultimately obtain rq where "build_request ?L ?a = Inr rq"
    using alist.build_request_cases [of any_uri ?a] by (cases "build_request ?L ?a") auto
  then show ?thesis
    by (simp add: attempt_proxy_def answering_def build_response_def)
qed

lemma collect_example:
  "collect_limited (x_timer answering) (x_collect answering w) (x_body answering) d now () m i = Some (Inr [])"
  by (simp add: answering_def collect_limited_def idle_new_def idle_impl_def idle_poll_frame_def
      limited_impl_def limited_poll_frame_def limited_new_def map_err_impl_def map_err_poll_frame_def
      map_err_new_def Let_def)

lemma choose_example:
  assumes "w_store w = w_store world_example"
  shows "\<exists>w'. choose_upstream 0 None 0 [] w = (Some 0, w') \<and> upstream_addr 0 0 w' = ''http://a''"
  using assms by (simp add: choose_upstream_def with_lb_def select_sticky_def select_excluding_def
      eligible_def world_example_def from_upstreams_def upstream_runtime_new_def least_conn_select_def
      upstream_addr_def lb_addr_def Let_def)

lemma max_attempts_pos: "\<exists>n. unat (max_attempts ctx m body) = Suc n"
proof -
  have "0 < unat (saturating_add_u32 r 1)" for r
    using unat_add_one [of r] unat_gt_0 [of "- 1 :: u32"] by (simp add: saturating_add_u32_def del: unat_gt_0)
  then have "0 < unat (max_attempts ctx m body)" by (simp add: max_attempts_def)
  then show ?thesis by (rule gr0_implies_Suc)
qed

lemma forward_example:
  assumes "request_set (ctx_headers ctx) = []"
    and c: "choose_upstream l None 0 [] w = (Some 0, w1)" "upstream_addr l 0 w1 = ''http://a''"
  shows "\<exists>r b w'. proxy_forward answering rq_example ctx remote start l None w = Some (r, w')
                  \<and> rs_status r = 200 \<and> rs_body r = Streamed b"
proof -
  let ?a = "make_attempt ctx rq_example remote ''http://a'' [] False"
  obtain r b w2 where a: "counted_attempt answering ?a l 0 w1 = (Inr r, w2)" "rs_status r = 200" "rs_body r = Streamed b"
    using attempt_example [OF assms(1), of remote "upd_metrics (gauge_add ''http://a'' 1) (upd_upstream l 0 inc_connections w1)"]
    by (auto simp: counted_attempt_def make_attempt_def Let_def)
  obtain k where n: "unat (max_attempts ctx ''GET'' []) = Suc k"
    using max_attempts_pos by blast
  obtain x w3 where p: "proxy_attempts answering ctx rq_example remote l None [] start 0
      (unat (max_attempts ctx ''GET'' [])) [] w = (Some x, [''http://a''], w3)"
      "rs_status x = 200" "rs_body x = Streamed b"
    using c a unfolding n by (simp only: proxy_attempts.simps prod.case option.case sum.case Let_def append_Nil) simp
  have f: "rq_method rq_example = ''GET''" "rq_body rq_example = ()" "x_collect_world answering w = w"
    by (simp_all add: rq_example_def answering_def)
  show ?thesis
    using p by (simp add: proxy_forward_def f collect_example Let_def)
qed

lemma example_run:
  "\<exists>r b w'. proxy_request answering rq_example ctx_example client_example world_example = Some (r, w')
            \<and> rs_status r = 200 \<and> rs_body r = Streamed b"
proof -
  let ?w = "world_example\<lparr>w_permits := (w_permits world_example)[0 := w_permits world_example ! 0 - 1]\<rparr>"
  obtain r b w' where "proxy_forward answering rq_example ctx_example client_example (w_clock world_example) 0 None ?w = Some (r, w')"
      "rs_status r = 200" "rs_body r = Streamed b"
    using choose_example [of ?w] forward_example [of ctx_example 0 ?w _ client_example "w_clock world_example"]
    by (auto simp: ctx_example_def [THEN arg_cong, of ctx_headers])
  moreover have "w_permits world_example ! 0 = 1" "\<not> is_upgrade_request (x_http answering) rq_example"
    by (simp_all add: world_example_def is_upgrade_request_def answering_def alist_http_def rq_example_def)
  ultimately show ?thesis
    by (simp add: proxy_request_def proxy_admitted_def ctx_example_def [THEN arg_cong, of ctx_acl]
        ctx_example_def [THEN arg_cong, of ctx_rate_limiter] ctx_example_def [THEN arg_cong, of ctx_request_limit]
        ctx_example_def [THEN arg_cong, of ctx_router] ctx_example_def [THEN arg_cong, of ctx_sticky]
        resolve_def Let_def)
qed

lemma proxy_attempts_silent:
  "fst (proxy_attempts silent ctx rq remote l sv body start attempt n tried w) = None"
proof (induction n arbitrary: attempt tried w)
  case (Suc n)
  have "\<exists>e w2. counted_attempt silent a l i w1 = (Inl e, w2)" for a i and w1 :: "unit world"
    by (auto simp: counted_attempt_def attempt_proxy_def silent_def Let_def split: sum.split prod.split)
  with Suc.IH show ?case
    by (simp add: Let_def split: prod.split option.split sum.split) (metis Inl_Inr_False prod.inject)
qed simp

theorem served_only_if_admitted_witness:
  "(\<exists>r b w'. proxy_request answering rq_example ctx_example client_example world_example = Some (r, w')
             \<and> rs_body r = Streamed b)
   \<and> resolve (ctx_router ctx_example) (rq_path rq_example) \<noteq> None \<and> 0 < w_permits world_example ! 0"
proof -
  obtain r b w' where "proxy_request answering rq_example ctx_example client_example world_example = Some (r, w')"
      "rs_body r = Streamed b"
    using example_run by blast
  with served_only_if_admitted [OF this] show ?thesis
    by (auto simp: ctx_example_def [THEN arg_cong, of ctx_request_limit])
qed

theorem request_leaves_counters_witness:
  "\<exists>r w'. proxy_request answering rq_example ctx_example client_example world_example = Some (r, w')
          \<and> conn_view w' = conn_view world_example"
  using example_run request_leaves_counters [OF quiet_examples(1)] by metis



theorem sticky_cookie_roundtrip_witness:
  "\<exists>j. select_sticky (w_store world_example ! 0)
         (extract_cookie (alist_http any_uri) [(''cookie'', ''a=1; OXIGATE=http://b'')] ''OXIGATE'')
       = (Some j, w_store world_example ! 0) \<and> lb_addr (w_store world_example ! 0) j = ''http://b''"
proof -
  let ?kvs = "[(''a'', ''1''), (''OXIGATE'', ''http://b'')]"
  have hd: "cookie_header ?kvs = ''a=1; OXIGATE=http://b''" by simp
  have "list_all cookie_pair ?kvs" "list_all visible_char (cookie_header ?kvs)"
    by (simp_all add: cookie_pair_def ascii_ws_def visible_char_def)
  moreover have "hm_get (alist_http any_uri) [(''cookie'', ''a=1; OXIGATE=http://b'')] ''cookie'' = Some (cookie_header ?kvs)"
    by (simp add: alist_http_def)
  moreover have "map_of ?kvs (cookie_name default_sticky) = Some ''http://b''"
    by (simp add: default_sticky_def)
  moreover have "available (w_store world_example ! 0) 1" "lb_addr (w_store world_example ! 0) 1 = ''http://b''"
    by (simp_all add: available_def lb_addr_def world_example_def from_upstreams_def upstream_runtime_new_def)
  ultimately show ?thesis
    using sticky_cookie_roundtrip [OF alist_http_crate, of ?kvs any_uri "[(''cookie'', ''a=1; OXIGATE=http://b'')]"
        default_sticky "''http://b''" "w_store world_example ! 0" 1]
    by (auto simp: default_sticky_def)
qed

theorem retries_distinct_and_complete_witness:
  "\<exists>tried w'. proxy_attempts silent ctx_example rq_example client_example 0 None ''body'' 0 0
                (unat (max_attempts ctx_example (rq_method rq_example) ''body'')) [] world_example = (None, tried, w')
              \<and> distinct tried \<and> length tried \<le> 3"
proof -
  have n: "unat (max_attempts ctx_example (rq_method rq_example) ''body'') = 3"
    by (simp add: max_attempts_def may_retry_def ctx_example_def rq_example_def saturating_add_u32_def)
  obtain r tried w' where p: "proxy_attempts silent ctx_example rq_example client_example 0 None ''body'' 0 0
                (unat (max_attempts ctx_example (rq_method rq_example) ''body'')) [] world_example = (r, tried, w')"
    by (metis prod.exhaust)
  have "r = None"
    using proxy_attempts_silent p by (metis fst_conv)
  with p n retries_distinct_and_complete [OF p] show ?thesis by auto
qed

end
