(* ===== verification/Runtime.thy ===== *)
theory Runtime
  imports Handler
begin

text \<open>
  What a configuration is turned into: the upstream client of \<open>src/proxy/client.rs\<close>, the TLS
  configuration of \<open>src/tls.rs\<close>, the shared configuration of \<open>src/state.rs\<close> and \<open>Runtime\<close> of
  \<open>src/main.rs\<close>. An \<open>Arc::new\<close> of a balancer, a limiter or a semaphore appends to a store of the
  world. The file system, the PEM parsers and \<open>rustls\<close> are arguments.
\<close>

section \<open>The upstream client\<close>

record client_options =
  opt_connect_timeout :: duration
  opt_pool_max_idle_per_host :: usize
  opt_http2 :: bool

text \<open>
  The settings \<open>build_client\<close> gives the connectors and the pool; the last is present for HTTP/2. Loading
  the platform's root certificates is a panic when it fails.
\<close>

record http2_settings =
  h2_only :: bool
  h2_adaptive_window :: bool
  h2_keep_alive_interval :: duration
  h2_keep_alive_timeout :: duration

record http_client =
  cl_nodelay :: bool
  cl_connect_timeout :: "duration option"
  cl_keepalive :: "duration option"
  cl_enforce_http :: bool
  cl_reuse_address :: bool
  cl_https_or_http :: bool
  cl_enabled_protocols :: "string list"
  cl_pool_idle_timeout :: duration
  cl_pool_max_idle_per_host :: usize
  cl_retry_canceled_requests :: bool
  cl_set_host :: bool
  cl_http2 :: "http2_settings option"

definition client_settings :: "client_options \<Rightarrow> http_client" where
  "client_settings opts =
     \<lparr>cl_nodelay = True, cl_connect_timeout = Some (opt_connect_timeout opts),
      cl_keepalive = Some (from_secs 30), cl_enforce_http = False, cl_reuse_address = True,
      cl_https_or_http = True, cl_enabled_protocols = [''http/1.1'', ''h2''],
      cl_pool_idle_timeout = from_secs 60,
      cl_pool_max_idle_per_host = max (opt_pool_max_idle_per_host opts) 4,
      cl_retry_canceled_requests = True, cl_set_host = True,
      cl_http2 = (if opt_http2 opts
                  then Some \<lparr>h2_only = False, h2_adaptive_window = True,
                             h2_keep_alive_interval = from_secs 30, h2_keep_alive_timeout = from_secs 10\<rparr>
                  else None)\<rparr>"

definition build_client :: "bool \<Rightarrow> client_options \<Rightarrow> http_client option" where
  "build_client native_roots opts = (if native_roots then Some (client_settings opts) else None)"

section \<open>TLS\<close>

text \<open>
  Opening a file, the PEM parsers (\<open>Inl\<close> a parse error; the key parsers return the first key, if any)
  and the constructor of the server configuration.
\<close>

record ('f, 'c, 'k, 's) tls_lib =
  file_open :: "string \<Rightarrow> 'f option"
  pem_certs :: "'f \<Rightarrow> 'c list option"
  pem_pkcs8 :: "'f \<Rightarrow> unit + 'k option"
  pem_rsa :: "'f \<Rightarrow> unit + 'k option"
  with_single_cert :: "'c list \<Rightarrow> 'k \<Rightarrow> 's option"

datatype tls_error =
  CertOpenFailed | CertParseFailed | KeyOpenFailed | Pkcs8ParseFailed | RsaParseFailed | NoPrivateKey | BuildFailed

record 's server_config =
  tls_base :: 's
  alpn_protocols :: "string list"

definition load_key :: "('f, 'c, 'k, 's) tls_lib \<Rightarrow> string \<Rightarrow> tls_error + 'k" where
  "load_key T key_path =
     (case file_open T key_path of
        None \<Rightarrow> Inl KeyOpenFailed
      | Some key_reader \<Rightarrow>
          (case pem_pkcs8 T key_reader of
             Inl _ \<Rightarrow> Inl Pkcs8ParseFailed
           | Inr (Some k) \<Rightarrow> Inr k
           | Inr None \<Rightarrow>
               (case file_open T key_path of
                  None \<Rightarrow> Inl KeyOpenFailed
                | Some key_reader \<Rightarrow>
                    (case pem_rsa T key_reader of
                       Inl _ \<Rightarrow> Inl RsaParseFailed
                     | Inr None \<Rightarrow> Inl NoPrivateKey
                     | Inr (Some k) \<Rightarrow> Inr k))))"

definition load_server_config ::
  "('f, 'c, 'k, 's) tls_lib \<Rightarrow> string \<Rightarrow> string \<Rightarrow> tls_error + 's server_config" where
  "load_server_config T cert_path key_path =
     (case file_open T cert_path of
        None \<Rightarrow> Inl CertOpenFailed
      | Some cert_reader \<Rightarrow>
          (case pem_certs T cert_reader of
             None \<Rightarrow> Inl CertParseFailed
           | Some cert_chain \<Rightarrow>
               (case load_key T key_path of
                  Inl e \<Rightarrow> Inl e
                | Inr k \<Rightarrow>
                    (case with_single_cert T cert_chain k of
                       None \<Rightarrow> Inl BuildFailed
                     | Some c \<Rightarrow> Inr \<lparr>tls_base = c, alpn_protocols = [''h2'', ''http/1.1'']\<rparr>))))"

section \<open>The shared configuration\<close>

record app_state =
  state_config :: config

definition app_state_new :: "config \<Rightarrow> app_state" where
  "app_state_new c = \<lparr>state_config = c\<rparr>"

definition load_config :: "app_state \<Rightarrow> config" where
  "load_config s = state_config s"

definition swap_config :: "config \<Rightarrow> app_state \<Rightarrow> app_state" where
  "swap_config c s = s\<lparr>state_config := c\<rparr>"

section \<open>The runtime\<close>

record 's runtime =
  rt_config :: config
  rt_router :: router
  rt_client :: http_client
  rt_rate_limiter :: "nat option"
  rt_tls :: "'s server_config option"
  rt_request_limit :: "nat option"
  rt_proxy_trusted :: "acl option"

datatype runtime_error = TlsError tls_error | BadTrustedCidrs

text \<open>\<open>Semaphore::new\<close> panics above \<open>MAX_PERMITS\<close>, which is \<open>usize::MAX >> 3\<close>.\<close>

definition semaphore_new :: "usize \<Rightarrow> nat option" where
  "semaphore_new n = (if unat n \<le> 2 ^ 61 - 1 then Some (unat n) else None)"

text \<open>The references of a router whose balancers are appended to a store of \<open>k\<close> balancers.\<close>

definition shift_router :: "nat \<Rightarrow> router \<Rightarrow> router" where
  "shift_router k r =
     \<lparr>router_routes = map (\<lambda>x. x\<lparr>route_lb := route_lb x + k\<rparr>) (router_routes r),
      router_default = map_option (\<lambda>d. d + k) (router_default r)\<rparr>"

definition limiter_config :: "rate_limit_yaml \<Rightarrow> rate_limit_config" where
  "limiter_config rl = \<lparr>rate = rps rl, window = from_secs 1, burst = burst_factor rl\<rparr>"

definition config_client_options :: "config \<Rightarrow> client_options" where
  "config_client_options c =
     \<lparr>opt_connect_timeout = connect_timeout c, opt_pool_max_idle_per_host = pool_max_idle_per_host c,
      opt_http2 = upstream_http2 c\<rparr>"

text \<open>Append a new object to a store, if there is one, and return its reference.\<close>

definition alloc :: "'a option \<Rightarrow> 'a list \<Rightarrow> nat option \<times> 'a list" where
  "alloc x xs = (case x of None \<Rightarrow> (None, xs) | Some a \<Rightarrow> (Some (length xs), xs @ [a]))"

definition runtime_from_config ::
  "bool \<Rightarrow> (string \<Rightarrow> string \<Rightarrow> tls_error + 's server_config) \<Rightarrow> config \<Rightarrow> 'env world
     \<Rightarrow> (runtime_error + 's runtime \<times> 'env world) option" where
  "runtime_from_config native_roots load_tls c w =
     (case build_client native_roots (config_client_options c) of
        None \<Rightarrow> None
      | Some client \<Rightarrow>
          (let limiter = map_option (rate_limiter_new \<circ> limiter_config) (rate_limit c)
           in case (case tls c of
                      Some t \<Rightarrow> map_sum TlsError Some (load_tls (cert t) (key t))
                    | None \<Rightarrow> Inr None) of
                Inl e \<Rightarrow> Some (Inl e)
              | Inr tls_acceptor \<Rightarrow>
                  (case (if max_connections c > 0 then map_option Some (semaphore_new (max_connections c))
                         else Some None) of
                     None \<Rightarrow> None
                   | Some request_limit \<Rightarrow>
                       (case (if proxy_protocol c \<and> proxy_protocol_trusted_cidrs c \<noteq> []
                              then map_option Some (acl_from_config (proxy_protocol_trusted_cidrs c) [])
                              else Some None) of
                          None \<Rightarrow> Some (Inl BadTrustedCidrs)
                        | Some trusted \<Rightarrow>
                            (case (router_from_config c, alloc limiter (w_limiters w), alloc request_limit (w_permits w)) of
                               ((rt, store), (rl, limiters), (sem, permits)) \<Rightarrow>
                                 Some (Inr (\<lparr>rt_config = c, rt_router = shift_router (length (w_store w)) rt,
                                             rt_client = client, rt_rate_limiter = rl, rt_tls = tls_acceptor,
                                             rt_request_limit = sem, rt_proxy_trusted = trusted\<rparr>,
                                            w\<lparr>w_store := w_store w @ store, w_limiters := limiters,
                                              w_permits := permits\<rparr>)))))))"

section \<open>References of a runtime\<close>

lemma resolve_shift: "resolve (shift_router k r) path = map_option (\<lambda>l. l + k) (resolve r path)"
proof -
  have "find P (map f xs) = map_option f (find (P \<circ> f) xs)" for P and f :: "route \<Rightarrow> route" and xs
    by (induction xs) simp_all
  then show ?thesis
    by (auto simp: resolve_def shift_router_def comp_def split: option.split)
qed

lemma alloc_spec:
  "alloc x xs = (r, ys) \<Longrightarrow>
     take (length xs) ys = xs
     \<and> (case r of None \<Rightarrow> x = None | Some k \<Rightarrow> k = length xs \<and> length ys = Suc k \<and> x = Some (ys ! k))"
  by (cases x) (auto simp: alloc_def)

lemma runtime_from_config_parts:
  assumes "runtime_from_config nr ld c w = Some (Inr (rt, w'))"
  shows "rt_config rt = c" and "rt_client rt = client_settings (config_client_options c)"
    and "rt_router rt = shift_router (length (w_store w)) (fst (router_from_config c))"
    and "w_store w' = w_store w @ snd (router_from_config c)"
    and "(rt_rate_limiter rt, w_limiters w')
         = alloc (map_option (rate_limiter_new \<circ> limiter_config) (rate_limit c)) (w_limiters w)"
    and "\<exists>sem. (rt_request_limit rt, w_permits w') = alloc sem (w_permits w)
              \<and> sem = (if max_connections c > 0 then Some (unat (max_connections c)) else None)"
    and "rt_proxy_trusted rt =
             (if proxy_protocol c \<and> proxy_protocol_trusted_cidrs c \<noteq> []
              then acl_from_config (proxy_protocol_trusted_cidrs c) [] else None)"
  using assms
  by (auto simp: runtime_from_config_def build_client_def semaphore_new_def Let_def
      split: sum.splits option.splits if_splits prod.splits)

text \<open>What the references of a runtime denote in the world it was built in.\<close>

definition routes_to :: "config \<Rightarrow> string \<Rightarrow> load_balancer list \<Rightarrow> lb_ref \<Rightarrow> bool" where
  "routes_to c path store l \<longleftrightarrow>
     l < length store
     \<and> ((\<exists>r. best_route c path r \<and> store ! l = route_balancer c r)
        \<or> ((\<forall>r \<in> set (routes c). \<not> path_matches path (normalize_prefix (path_prefix r)))
           \<and> upstreams c \<noteq> [] \<and> store ! l = lb_from_config c))"

lemma runtime_refs:
  assumes "runtime_from_config nr ld c w = Some (Inr (rt, w'))"
  shows "take (length (w_store w)) (w_store w') = w_store w
         \<and> take (length (w_limiters w)) (w_limiters w') = w_limiters w
         \<and> take (length (w_permits w)) (w_permits w') = w_permits w
         \<and> (case resolve (rt_router rt) path of
              Some l \<Rightarrow> length (w_store w) \<le> l \<and> routes_to c path (w_store w') l
            | None \<Rightarrow> upstreams c = []
                \<and> (\<forall>r \<in> set (routes c). \<not> path_matches path (normalize_prefix (path_prefix r))))
         \<and> (case rt_rate_limiter rt of
              None \<Rightarrow> rate_limit c = None
            | Some k \<Rightarrow> length (w_limiters w) \<le> k \<and> k < length (w_limiters w')
                \<and> (\<exists>y. rate_limit c = Some y \<and> w_limiters w' ! k = rate_limiter_new (limiter_config y)))
         \<and> (case rt_request_limit rt of
              None \<Rightarrow> max_connections c = 0
            | Some k \<Rightarrow> length (w_permits w) \<le> k \<and> k < length (w_permits w')
                \<and> w_permits w' ! k = unat (max_connections c) \<and> 0 < max_connections c)"
proof -
  note parts = runtime_from_config_parts [OF assms]
  obtain r store where rs: "router_from_config c = (r, store)" by (cases "router_from_config c")
  have "case resolve (rt_router rt) path of
              Some l \<Rightarrow> length (w_store w) \<le> l \<and> routes_to c path (w_store w') l
            | None \<Rightarrow> upstreams c = []
                \<and> (\<forall>r \<in> set (routes c). \<not> path_matches path (normalize_prefix (path_prefix r)))"
    using resolve_spec [OF rs, of path] parts(3,4)
    by (auto simp: rs resolve_shift routes_to_def nth_append split: option.splits)
  moreover have "take (length (w_store w)) (w_store w') = w_store w"
    by (simp add: parts(4))
  moreover note alloc_spec [OF parts(5) [symmetric]]
  moreover obtain sem where "(rt_request_limit rt, w_permits w') = alloc sem (w_permits w)"
      "sem = (if max_connections c > 0 then Some (unat (max_connections c)) else None)"
    using parts(6) by blast
  moreover note alloc_spec [OF this(1) [symmetric]]
  ultimately show ?thesis
    by (auto simp: word_gt_0 split: option.splits if_splits)
qed

section \<open>Properties\<close>

text \<open>C25. Building a runtime, at start-up or on a reload, allocates and never overwrites: the balancers,
  limiters and semaphores that sessions already use keep their places and values; every path resolves to
  a new balancer, in range, that is the one of a matching route with the longest prefix or of the default
  pool; the limiter is new and has the configured rate, and the request semaphore has the configured
  number of permits, exactly when they are configured.\<close>

theorem runtime_references:
  assumes "runtime_from_config nr ld c w = Some (Inr (rt, w'))"
  shows "take (length (w_store w)) (w_store w') = w_store w
         \<and> take (length (w_limiters w)) (w_limiters w') = w_limiters w
         \<and> take (length (w_permits w)) (w_permits w') = w_permits w
         \<and> (case resolve (rt_router rt) path of
              Some l \<Rightarrow> length (w_store w) \<le> l \<and> routes_to c path (w_store w') l
            | None \<Rightarrow> upstreams c = []
                \<and> (\<forall>r \<in> set (routes c). \<not> path_matches path (normalize_prefix (path_prefix r))))
         \<and> (case rt_rate_limiter rt of
              None \<Rightarrow> rate_limit c = None
            | Some k \<Rightarrow> length (w_limiters w) \<le> k \<and> k < length (w_limiters w')
                \<and> (\<exists>y. rate_limit c = Some y \<and> w_limiters w' ! k = rate_limiter_new (limiter_config y)))
         \<and> (case rt_request_limit rt of
              None \<Rightarrow> max_connections c = 0
            | Some k \<Rightarrow> length (w_permits w) \<le> k \<and> k < length (w_permits w')
                \<and> w_permits w' ! k = unat (max_connections c) \<and> 0 < max_connections c)"
  by (rule runtime_refs [OF assms])

section \<open>Witness\<close>

theorem runtime_references_witness:
  "\<exists>rt w'. runtime_from_config True (\<lambda>_ _. Inl CertOpenFailed :: tls_error + unit server_config) acl_example world_example
             = Some (Inr (rt, w'))
           \<and> take (length (w_store world_example)) (w_store w') = w_store world_example
           \<and> (\<exists>l. resolve (rt_router rt) ''/x'' = Some l \<and> routes_to acl_example ''/x'' (w_store w') l)"
proof -
  have cfg: "max_connections acl_example = 2" "tls acl_example = None" "proxy_protocol acl_example = False"
    "upstreams acl_example \<noteq> []"
    by (simp_all add: acl_example_def default_config_def)
  then have "\<exists>rt w'. runtime_from_config True
      (\<lambda>_ _. Inl CertOpenFailed :: tls_error + unit server_config) acl_example world_example = Some (Inr (rt, w'))"
    by (simp add: runtime_from_config_def build_client_def semaphore_new_def Let_def case_prod_beta)
  then obtain rt w' where r: "runtime_from_config True
      (\<lambda>_ _. Inl CertOpenFailed :: tls_error + unit server_config) acl_example world_example = Some (Inr (rt, w'))"
    by blast
  from runtime_references [OF r, of "''/x''"] r cfg(4) show ?thesis
    by (auto split: option.splits)
qed

end
