(* ===== verification/ProxyProtocol.thy ===== *)
theory ProxyProtocol
  imports Net
begin

text \<open>
  The PROXY protocol reader of \<open>src/proxy_protocol.rs\<close>. A connection is the sequence of chunks its
  reads deliver: a read returns at most as many bytes as the buffer has room for, whatever is left
  of a chunk is delivered by the next read, an empty sequence is the end of the stream, and a read
  may fail. A byte is an 8-bit character.
\<close>

unbundle bit_operations_syntax

section \<open>Definitions\<close>

datatype chunk = Data string | IoErr

type_synonym stream = "chunk list"

datatype proxy_error =
    Io
  | EofInV1
  | EofInV2
  | V1TooLong
  | V1InvalidUtf8
  | V1Malformed
  | BadAddr
  | BadPort
  | UnsupportedFamily u8

record proxy_header =
  src :: socket_addr
  dst :: socket_addr

record prefixed_stream =
  inner :: stream
  stream_prefix :: string
  prefix_pos :: nat

definition prefixed_new :: "stream \<Rightarrow> string \<Rightarrow> prefixed_stream" where
  "prefixed_new s p = \<lparr>inner = s, stream_prefix = p, prefix_pos = 0\<rparr>"

text \<open>\<open>AsyncRead::read\<close> into a buffer with room for \<open>k\<close> bytes; no bytes means the end.\<close>

fun read :: "nat \<Rightarrow> stream \<Rightarrow> proxy_error + string \<times> stream" where
  "read k [] = Inr ([], [])"
| "read k (IoErr # s) = Inl Io"
| "read k (Data bs # s) =
     (if bs = [] then read k s
      else if length bs \<le> k then Inr (bs, s)
      else Inr (take k bs, Data (drop k bs) # s))"

text \<open>\<open>PrefixedStream::poll_read\<close>: the rest of the prefix first, then the inner stream.\<close>

definition prefixed_read :: "nat \<Rightarrow> prefixed_stream \<Rightarrow> proxy_error + string \<times> prefixed_stream" where
  "prefixed_read k p =
     (if prefix_pos p < length (stream_prefix p)
      then (let rest = drop (prefix_pos p) (stream_prefix p); n = min (length rest) k
            in Inr (take n rest, p\<lparr>prefix_pos := prefix_pos p + n\<rparr>))
      else (case read k (inner p) of
              Inl e \<Rightarrow> Inl e
            | Inr (bs, s) \<Rightarrow> Inr (bs, p\<lparr>inner := s\<rparr>)))"

definition prefixed_into_inner :: "prefixed_stream \<Rightarrow> stream" where
  "prefixed_into_inner s = inner s"

text \<open>
  The writing half: the operations of \<open>AsyncWrite\<close> with their results, and the wrapper, which keeps its
  reading half and the writing half \<open>'w\<close> of the same inner stream.
\<close>

record ('w, 'n, 'u) async_write =
  aw_poll_write :: "string \<Rightarrow> 'w \<Rightarrow> 'n \<times> 'w"
  aw_poll_flush :: "'w \<Rightarrow> 'u \<times> 'w"
  aw_poll_shutdown :: "'w \<Rightarrow> 'u \<times> 'w"
  aw_poll_write_vectored :: "string list \<Rightarrow> 'w \<Rightarrow> 'n \<times> 'w"
  aw_is_write_vectored :: "'w \<Rightarrow> bool"

record 'w prefixed_io =
  pio_read :: prefixed_stream
  pio_write :: 'w

definition on_inner :: "('w \<Rightarrow> 'r \<times> 'w) \<Rightarrow> 'w prefixed_io \<Rightarrow> 'r \<times> 'w prefixed_io" where
  "on_inner f s = (case f (pio_write s) of (r, w) \<Rightarrow> (r, s\<lparr>pio_write := w\<rparr>))"

definition prefixed_write :: "('w, 'n, 'u) async_write \<Rightarrow> ('w prefixed_io, 'n, 'u) async_write" where
  "prefixed_write A =
     \<lparr>aw_poll_write = (\<lambda>buf. on_inner (aw_poll_write A buf)), aw_poll_flush = on_inner (aw_poll_flush A),
      aw_poll_shutdown = on_inner (aw_poll_shutdown A),
      aw_poll_write_vectored = (\<lambda>bufs. on_inner (aw_poll_write_vectored A bufs)),
      aw_is_write_vectored = (\<lambda>s. aw_is_write_vectored A (pio_write s))\<rparr>"

definition v2_sig :: string where
  "v2_sig = map char_of [0x0D, 0x0A, 0x0D, 0x0A, 0x00, 0x0D, 0x0A, 0x51, 0x55, 0x49, 0x54, 0x0A :: nat]"

definition crlf :: string where
  "crlf = [char_of (13 :: nat), char_of (10 :: nat)]"

text \<open>
  \<open>while filled < target\<close>: reads into the rest of the 16-byte buffer \<open>first\<close>. The flag says that the
  stream ended before the target was reached.
\<close>

function fill :: "nat \<Rightarrow> string \<Rightarrow> stream \<Rightarrow> proxy_error + string \<times> bool \<times> stream" where
  "fill target first s =
     (if length first \<ge> target then Inr (first, False, s)
      else (case read (16 - length first) s of
              Inl e \<Rightarrow> Inl e
            | Inr (bs, s') \<Rightarrow> if bs = [] then Inr (first, True, s') else fill target (first @ bs) s'))"
  by pat_completeness auto
termination
  by (relation "measure (\<lambda>(target, first, s). target - length first)") (auto intro!: diff_less_mono2)

text \<open>
  The length of the well-formed UTF-8 character a byte sequence starts with, 0 if there is none
  (Table 3-7 of the Unicode standard), and validity of a whole sequence.
\<close>

definition cont_byte :: "nat \<Rightarrow> nat \<Rightarrow> char \<Rightarrow> bool" where
  "cont_byte lo hi c = (lo \<le> (of_char c :: nat) \<and> (of_char c :: nat) \<le> hi)"

definition utf8_len :: "string \<Rightarrow> nat" where
  "utf8_len s =
     (case s of
        [] \<Rightarrow> 0
      | a # r \<Rightarrow>
          (let n = of_char a :: nat;
               two = (\<lambda>lo hi. case r of b # _ \<Rightarrow> cont_byte lo hi b | _ \<Rightarrow> False);
               three = (\<lambda>lo hi. case r of b # c # _ \<Rightarrow> cont_byte lo hi b \<and> cont_byte 0x80 0xBF c | _ \<Rightarrow> False);
               four = (\<lambda>lo hi. case r of b # c # d # _ \<Rightarrow> cont_byte lo hi b \<and> cont_byte 0x80 0xBF c
                                            \<and> cont_byte 0x80 0xBF d | _ \<Rightarrow> False)
           in if n < 0x80 then 1
              else if 0xC2 \<le> n \<and> n \<le> 0xDF then (if two 0x80 0xBF then 2 else 0)
              else if n = 0xE0 then (if three 0xA0 0xBF then 3 else 0)
              else if n = 0xED then (if three 0x80 0x9F then 3 else 0)
              else if 0xE1 \<le> n \<and> n \<le> 0xEF then (if three 0x80 0xBF then 3 else 0)
              else if n = 0xF0 then (if four 0x90 0xBF then 4 else 0)
              else if 0xF1 \<le> n \<and> n \<le> 0xF3 then (if four 0x80 0xBF then 4 else 0)
              else if n = 0xF4 then (if four 0x80 0x8F then 4 else 0)
              else 0))"

function utf8_valid :: "string \<Rightarrow> bool" where
  "utf8_valid s =
     (if s = [] then True else if utf8_len s = 0 then False else utf8_valid (drop (utf8_len s) s))"
  by pat_completeness auto
termination
  by (relation "measure length") auto

declare fill.simps [simp del] utf8_valid.simps [simp del]

definition parse_v1_line :: "string \<Rightarrow> proxy_error + proxy_header" where
  "parse_v1_line line =
     (let parts = split_whitespace line
      in if length parts < 2 \<or> parts ! 0 \<noteq> ''PROXY'' then Inl V1Malformed
         else if parts ! 1 = ''UNKNOWN'' then Inr \<lparr>src = unspecified_addr, dst = unspecified_addr\<rparr>
         else if length parts < 6 then Inl V1Malformed
         else (case parse_ip (parts ! 2) of
                 None \<Rightarrow> Inl BadAddr
               | Some sip \<Rightarrow>
                   (case parse_u16 (parts ! 4) of
                      None \<Rightarrow> Inl BadPort
                    | Some sport \<Rightarrow>
                        (case parse_ip (parts ! 3) of
                           None \<Rightarrow> Inl BadAddr
                         | Some dip \<Rightarrow>
                             (case parse_u16 (parts ! 5) of
                                None \<Rightarrow> Inl BadPort
                              | Some dport \<Rightarrow>
                                  Inr \<lparr>src = \<lparr>sa_ip = sip, sa_port = sport\<rparr>,
                                       dst = \<lparr>sa_ip = dip, sa_port = dport\<rparr>\<rparr>)))))"

text \<open>The header of a line that was found at \<open>pos\<close>, with the bytes after it.\<close>

definition finish_v1 :: "string \<Rightarrow> nat \<Rightarrow> proxy_error + proxy_header \<times> string" where
  "finish_v1 buf pos =
     (if \<not> utf8_valid (take pos buf) then Inl V1InvalidUtf8
      else (case parse_v1_line (take pos buf) of
              Inl e \<Rightarrow> Inl e
            | Inr h \<Rightarrow> Inr (h, drop (pos + 2) buf)))"

function parse_v1 :: "stream \<Rightarrow> string \<Rightarrow> proxy_error + (proxy_header \<times> string) \<times> stream" where
  "parse_v1 s buf =
     (case find_sub crlf buf of
        Some pos \<Rightarrow> (case finish_v1 buf pos of Inl e \<Rightarrow> Inl e | Inr r \<Rightarrow> Inr (r, s))
      | None \<Rightarrow>
          if length buf > 108 then Inl V1TooLong
          else (case read 1 s of
                  Inl e \<Rightarrow> Inl e
                | Inr (bs, s') \<Rightarrow> if bs = [] then Inl EofInV1 else parse_v1 s' (buf @ [hd bs])))"
  by pat_completeness auto
termination
  by (relation "measure (\<lambda>(s, buf). 109 - length buf)") auto

declare parse_v1.simps [simp del]

text \<open>\<open>read_exact\<close>: an early end of the stream is an I/O error.\<close>

function read_exact :: "nat \<Rightarrow> stream \<Rightarrow> proxy_error + string \<times> stream" where
  "read_exact n s =
     (if n = 0 then Inr ([], s)
      else (case read n s of
              Inl e \<Rightarrow> Inl e
            | Inr (bs, s') \<Rightarrow>
                if bs = [] then Inl Io
                else (case read_exact (n - length bs) s' of
                        Inl e \<Rightarrow> Inl e
                      | Inr (cs, s'') \<Rightarrow> Inr (bs @ cs, s''))))"
  by pat_completeness auto
termination
  by (relation "measure fst") auto

declare read_exact.simps [simp del]

definition be16 :: "char \<Rightarrow> char \<Rightarrow> nat" where
  "be16 a b = of_char a * 256 + of_char b"

definition v2_ipv4 :: "string \<Rightarrow> nat \<Rightarrow> ip_addr" where
  "v2_ipv4 r i = V4 (ipv4_new (of_char (r ! i)) (of_char (r ! (i + 1))) (of_char (r ! (i + 2))) (of_char (r ! (i + 3))))"

definition v2_ipv6 :: "string \<Rightarrow> nat \<Rightarrow> ip_addr" where
  "v2_ipv6 r i = V6 (of_nat (nat_of_be 256 (map of_char (take 16 (drop i r)))))"

text \<open>The decoding of \<open>parse_v2\<close> after the address block \<open>rest\<close> has been read.\<close>

definition decode_v2 :: "string \<Rightarrow> string \<Rightarrow> proxy_error + proxy_header" where
  "decode_v2 hdr rest =
     (let ver_cmd = of_char (hdr ! 12) :: u8; family = of_char (hdr ! 13) :: u8
      in if ver_cmd AND 0x0F = 0 then Inr \<lparr>src = unspecified_addr, dst = unspecified_addr\<rparr>
         else if family = 0x11 \<and> length rest \<ge> 12
         then Inr \<lparr>src = \<lparr>sa_ip = v2_ipv4 rest 0, sa_port = of_nat (be16 (rest ! 8) (rest ! 9))\<rparr>,
                   dst = \<lparr>sa_ip = v2_ipv4 rest 4, sa_port = of_nat (be16 (rest ! 10) (rest ! 11))\<rparr>\<rparr>
         else if family = 0x21 \<and> length rest \<ge> 36
         then Inr \<lparr>src = \<lparr>sa_ip = v2_ipv6 rest 0, sa_port = of_nat (be16 (rest ! 32) (rest ! 33))\<rparr>,
                   dst = \<lparr>sa_ip = v2_ipv6 rest 16, sa_port = of_nat (be16 (rest ! 34) (rest ! 35))\<rparr>\<rparr>
         else Inl (UnsupportedFamily family))"

definition parse_v2 :: "stream \<Rightarrow> string \<Rightarrow> proxy_error + proxy_header \<times> stream" where
  "parse_v2 s hdr =
     (case read_exact (be16 (hdr ! 14) (hdr ! 15)) s of
        Inl e \<Rightarrow> Inl e
      | Inr (rest, s') \<Rightarrow> (case decode_v2 hdr rest of Inl e \<Rightarrow> Inl e | Inr h \<Rightarrow> Inr (h, s')))"

definition maybe_read_proxy_header :: "stream \<Rightarrow> proxy_error + proxy_header option \<times> prefixed_stream" where
  "maybe_read_proxy_header s0 =
     (case fill 6 [] s0 of
        Inl e \<Rightarrow> Inl e
      | Inr (first, eof, s) \<Rightarrow>
          if eof then Inr (None, prefixed_new s first)
          else if take 6 first = ''PROXY ''
          then (case parse_v1 s first of
                  Inl e \<Rightarrow> Inl e
                | Inr ((header, leftover), s') \<Rightarrow> Inr (Some header, prefixed_new s' leftover))
          else (case fill 12 first s of
                  Inl e \<Rightarrow> Inl e
                | Inr (first, eof, s) \<Rightarrow>
                    if eof then Inr (None, prefixed_new s first)
                    else if take 12 first = v2_sig
                    then (case fill 16 first s of
                            Inl e \<Rightarrow> Inl e
                          | Inr (first, eof, s) \<Rightarrow>
                              if eof then Inl EofInV2
                              else (case parse_v2 s (take 16 first) of
                                      Inl e \<Rightarrow> Inl e
                                    | Inr (header, s') \<Rightarrow> Inr (Some header, prefixed_new s' [])))
                    else Inr (None, prefixed_new s first)))"

section \<open>What a stream delivers\<close>

text \<open>The bytes a stream delivers up to its end or its first failure, and streams that never fail.\<close>

fun content :: "stream \<Rightarrow> string" where
  "content [] = []"
| "content (Data bs # s) = bs @ content s"
| "content (IoErr # s) = []"

definition error_free :: "stream \<Rightarrow> bool" where
  "error_free s = (IoErr \<notin> set s)"

definition prefixed_content :: "prefixed_stream \<Rightarrow> string" where
  "prefixed_content p = drop (prefix_pos p) (stream_prefix p) @ content (inner p)"

definition prefixed_error_free :: "prefixed_stream \<Rightarrow> bool" where
  "prefixed_error_free p = error_free (inner p)"

text \<open>\<open>read_to_end\<close> with a buffer of \<open>k\<close> bytes and at most \<open>n\<close> reads; \<open>None\<close> if it needs more reads.\<close>

fun read_to_end ::
  "(nat \<Rightarrow> 's \<Rightarrow> proxy_error + string \<times> 's) \<Rightarrow> nat \<Rightarrow> nat \<Rightarrow> 's \<Rightarrow> (proxy_error + string) option" where
  "read_to_end rd k 0 s = None"
| "read_to_end rd k (Suc n) s =
     (case rd k s of
        Inl e \<Rightarrow> Some (Inl e)
      | Inr (bs, s') \<Rightarrow> if bs = [] then Some (Inr [])
          else map_option (map_sum id ((@) bs)) (read_to_end rd k n s'))"

text \<open>
  The contract of \<open>AsyncRead\<close>: a read into a non-empty buffer delivers the next bytes, at most as many
  as the buffer holds, and none exactly at the end.
\<close>

locale byte_source =
  fixes rd :: "nat \<Rightarrow> 's \<Rightarrow> proxy_error + string \<times> 's"
    and bytes :: "'s \<Rightarrow> string"
    and ok :: "'s \<Rightarrow> bool"
  assumes rd_delivers:
    "ok s \<Longrightarrow> 0 < k \<Longrightarrow>
       \<exists>bs s'. rd k s = Inr (bs, s') \<and> ok s' \<and> bytes s = bs @ bytes s' \<and> length bs \<le> k
             \<and> (bs = [] \<longleftrightarrow> bytes s = [])"
begin

lemma rd_obtains:
  assumes "ok s" "0 < k"
  obtains bs s' where "rd k s = Inr (bs, s')" "ok s'" "bytes s = bs @ bytes s'" "length bs \<le> k"
    "bs = [] \<longleftrightarrow> bytes s = []"
  using rd_delivers [OF assms] by blast

lemma read_to_end_delivers:
  assumes "ok s" "0 < k" "length (bytes s) < n"
  shows "read_to_end rd k n s = Some (Inr (bytes s))"
  using assms
proof (induction n arbitrary: s)
  case (Suc n)
  obtain bs s' where r: "rd k s = Inr (bs, s')" "ok s'" "bytes s = bs @ bytes s'"
      "bs = [] \<longleftrightarrow> bytes s = []"
    using rd_obtains [OF Suc.prems(1,2)] by metis
  show ?case
  proof (cases "bs = []")
    case False
    then have "length (bytes s') < n"
      using Suc.prems(3) r(3) by (cases bs) auto
    with Suc.IH [of s'] r False Suc.prems(2) show ?thesis by simp
  next
    case True
    then have "bytes s = []" using r(4) by blast
    with r(1) True show ?thesis by simp
  qed
qed simp

end

lemma read_delivers:
  "error_free s \<Longrightarrow> 0 < k \<Longrightarrow>
     \<exists>bs s'. read k s = Inr (bs, s') \<and> error_free s' \<and> content s = bs @ content s' \<and> length bs \<le> k
           \<and> (bs = [] \<longleftrightarrow> content s = [])"
  by (induction k s rule: read.induct) (auto simp: error_free_def)

interpretation rs: byte_source read content error_free
  by unfold_locales (rule read_delivers)

interpretation ps: byte_source prefixed_read prefixed_content prefixed_error_free
proof
  fix p :: prefixed_stream and k :: nat
  assume ok: "prefixed_error_free p" "0 < k"
  show "\<exists>bs p'. prefixed_read k p = Inr (bs, p') \<and> prefixed_error_free p'
          \<and> prefixed_content p = bs @ prefixed_content p' \<and> length bs \<le> k
          \<and> (bs = [] \<longleftrightarrow> prefixed_content p = [])"
  proof (cases "prefix_pos p < length (stream_prefix p)")
    case True
    define n where "n = min (length (drop (prefix_pos p) (stream_prefix p))) k"
    define q where "q = p\<lparr>prefix_pos := prefix_pos p + n\<rparr>"
    have "prefixed_read k p = Inr (take n (drop (prefix_pos p) (stream_prefix p)), q)"
      using True by (simp add: prefixed_read_def Let_def n_def q_def)
    moreover have "prefixed_content p = take n (drop (prefix_pos p) (stream_prefix p)) @ prefixed_content q"
      by (simp add: prefixed_content_def q_def add.commute
          flip: drop_drop append_assoc)
    moreover have "0 < n" "n \<le> k"
      using True ok(2) by (auto simp: n_def)
    ultimately show ?thesis
      using ok(1) True by (auto simp: prefixed_error_free_def q_def prefixed_content_def)
  next
    case False
    then show ?thesis
      using read_delivers [of "inner p" k] ok
      by (auto simp: prefixed_read_def prefixed_content_def prefixed_error_free_def)
  qed
qed

section \<open>The header as a function of the bytes\<close>

text \<open>
  The abstract reader: what a sequence of bytes means, whatever the sizes of the reads that deliver
  it. The result is the header and the bytes that are left for the HTTP server.
\<close>

definition header_v1 :: "string \<Rightarrow> proxy_error + proxy_header option \<times> string" where
  "header_v1 bs =
     (case find_sub crlf (take 109 bs) of
        None \<Rightarrow> Inl (if length bs < 109 then EofInV1 else V1TooLong)
      | Some pos \<Rightarrow>
          if \<not> utf8_valid (take pos bs) then Inl V1InvalidUtf8
          else (case parse_v1_line (take pos bs) of
                  Inl e \<Rightarrow> Inl e
                | Inr h \<Rightarrow> Inr (Some h, drop (pos + 2) bs)))"

definition header_v2 :: "string \<Rightarrow> proxy_error + proxy_header option \<times> string" where
  "header_v2 bs =
     (if length bs < 16 then Inl EofInV2
      else (let n = be16 (bs ! 14) (bs ! 15)
            in if length bs < 16 + n then Inl Io
               else (case decode_v2 (take 16 bs) (take n (drop 16 bs)) of
                       Inl e \<Rightarrow> Inl e
                     | Inr h \<Rightarrow> Inr (Some h, drop (16 + n) bs))))"

definition header_of_bytes :: "string \<Rightarrow> proxy_error + proxy_header option \<times> string" where
  "header_of_bytes bs =
     (if take 6 bs = ''PROXY '' then header_v1 bs
      else if take 12 bs = v2_sig then header_v2 bs
      else Inr (None, bs))"

section \<open>The reader implements it\<close>

lemma fill_delivers:
  assumes "error_free s" "length first \<le> 16" "target \<le> 16"
  shows "\<exists>first' eof s'. fill target first s = Inr (first', eof, s') \<and> error_free s'
           \<and> first' @ content s' = first @ content s \<and> length first' \<le> 16
           \<and> (eof \<longrightarrow> content s' = [] \<and> length first' < target) \<and> (\<not> eof \<longrightarrow> target \<le> length first')"
  using assms
proof (induction target first s rule: fill.induct)
  case (1 target first s)
  show ?case
  proof (cases "target \<le> length first")
    case True
    with "1.prems" show ?thesis by (auto simp: fill.simps intro: exI [of _ False])
  next
    case False
    then have room: "0 < 16 - length first"
      using "1.prems" by linarith
    obtain bs s' where r: "read (16 - length first) s = Inr (bs, s')" "error_free s'"
        "content s = bs @ content s'" "length bs \<le> 16 - length first" "bs = [] \<longleftrightarrow> content s = []"
      using rs.rd_obtains [OF "1.prems"(1) room] by blast
    show ?thesis
    proof (cases "bs = []")
      case True
      with r False "1.prems" show ?thesis
        by (auto simp: fill.simps [of target first s] intro: exI [of _ True])
    next
      case nonempty: False
      have len: "length (first @ bs) \<le> 16" using r(4) room by simp
      have step: "fill target first s = fill target (first @ bs) s'"
        using False nonempty r(1) by (simp add: fill.simps [of target first s])
      show ?thesis
        using "1.IH" [OF False r(1) refl nonempty r(2) len "1.prems"(3)] r(3)
        unfolding step by simp
    qed
  qed
qed

lemma find_sub_two_Some:
  "find_sub [a, b] s = Some p \<Longrightarrow> p + 2 \<le> length s"
proof (induction s arbitrary: p)
  case (Cons c s)
  then show ?case
    by (auto split: if_splits dest!: starts_with_length)
qed simp

lemma find_sub_append:
  "find_sub n s = Some p \<Longrightarrow> find_sub n (s @ t) = Some p"
proof (induction s arbitrary: p)
  case Nil
  then show ?case by (cases t) (auto split: if_splits simp: starts_with_def)
next
  case (Cons c s)
  show ?case
  proof (cases "starts_with (c # s) n")
    case True
    then have "starts_with (c # s @ t) n"
      by (metis append_Cons append_assoc starts_with_iff)
    with True Cons.prems show ?thesis by simp
  next
    case False
    then obtain q where q: "find_sub n s = Some q" "p = Suc q"
      using Cons.prems by auto
    have "length n \<le> length (c # s)"
      using q(1) by (induction s arbitrary: q) (auto split: if_splits dest: starts_with_length)
    then have "\<not> starts_with (c # s @ t) n"
      using False by (auto simp: starts_with_iff append_eq_append_conv2 Cons_eq_append_conv)
    with q Cons.IH [OF q(1)] show ?thesis by simp
  qed
qed

definition v1_implements ::
  "proxy_error + (proxy_header \<times> string) \<times> stream \<Rightarrow> proxy_error + proxy_header option \<times> string \<Rightarrow> bool" where
  "v1_implements r spec =
     (case r of
        Inl e \<Rightarrow> spec = Inl e
      | Inr ((h, left), s) \<Rightarrow> error_free s \<and> spec = Inr (Some h, left @ content s))"

lemma parse_v1_found:
  assumes "find_sub crlf buf = Some pos" "length buf \<le> 109" "error_free s"
  shows "v1_implements (parse_v1 s buf) (header_v1 (buf @ content s))"
proof -
  have "pos + 2 \<le> length buf"
    using assms(1) find_sub_two_Some unfolding crlf_def by blast
  moreover have "find_sub crlf (take 109 (buf @ content s)) = Some pos"
    using find_sub_append [OF assms(1)] assms(2) by simp
  ultimately show ?thesis
    using assms(1,3)
    by (simp add: parse_v1.simps [of s buf] header_v1_def finish_v1_def v1_implements_def split: sum.split)
qed

lemma parse_v1_implements:
  assumes "error_free s" "length buf \<le> 109"
  shows "v1_implements (parse_v1 s buf) (header_v1 (buf @ content s))"
  using assms
proof (induction s buf rule: parse_v1.induct)
  case (1 s buf)
  show ?case
  proof (cases "find_sub crlf buf")
    case (Some pos)
    then show ?thesis by (rule parse_v1_found) (use "1.prems" in auto)
  next
    case None
    show ?thesis
    proof (cases "108 < length buf")
      case True
      with None "1.prems" show ?thesis
        by (simp add: parse_v1.simps [of s buf] header_v1_def v1_implements_def)
    next
      case False
      obtain bs s' where r: "read 1 s = Inr (bs, s')" "error_free s'" "content s = bs @ content s'"
          "length bs \<le> 1" "bs = [] \<longleftrightarrow> content s = []"
        using rs.rd_obtains [OF "1.prems"(1), of 1] by auto
      show ?thesis
      proof (cases bs)
        case Nil
        with r None False show ?thesis
          by (simp add: parse_v1.simps [of s buf] header_v1_def v1_implements_def)
      next
        case (Cons b bs')
        with r have bs: "bs = [b]" by (cases bs') auto
        have step: "parse_v1 s buf = parse_v1 s' (buf @ [b])"
          using None False r(1) bs by (simp add: parse_v1.simps [of s buf])
        show ?thesis
          using "1.IH" [OF None False r(1) refl] r bs False unfolding step by simp
      qed
    qed
  qed
qed

lemma read_exact_delivers:
  assumes "error_free s"
  shows "read_exact n s = Inl Io \<and> length (content s) < n
         \<or> (\<exists>s'. read_exact n s = Inr (take n (content s), s') \<and> error_free s' \<and> n \<le> length (content s)
               \<and> content s' = drop n (content s))"
  using assms
proof (induction n s rule: read_exact.induct)
  case (1 n s)
  show ?case
  proof (cases "n = 0")
    case True
    with "1.prems" show ?thesis by (simp add: read_exact.simps)
  next
    case False
    obtain bs s' where r: "read n s = Inr (bs, s')" "error_free s'" "content s = bs @ content s'"
        "length bs \<le> n" "bs = [] \<longleftrightarrow> content s = []"
      using rs.rd_obtains [OF "1.prems", of n] False by auto
    show ?thesis
    proof (cases "bs = []")
      case True
      with r False show ?thesis by (simp add: read_exact.simps [of n s])
    next
      case nonempty: False
      have step: "read_exact n s = (case read_exact (n - length bs) s' of
                        Inl e \<Rightarrow> Inl e | Inr (cs, s'') \<Rightarrow> Inr (bs @ cs, s''))"
        using False r(1) nonempty by (simp add: read_exact.simps [of n s])
      show ?thesis
        using "1.IH" [OF False r(1) refl nonempty r(2)] r(3,4) unfolding step by (auto split: sum.split)
    qed
  qed
qed

lemma parse_v2_implements:
  assumes "error_free s" "length hdr = 16"
  shows "case parse_v2 s hdr of
           Inl e \<Rightarrow> header_v2 (hdr @ content s) = Inl e
         | Inr (h, s') \<Rightarrow> error_free s' \<and> header_v2 (hdr @ content s) = Inr (Some h, content s')"
  using read_exact_delivers [OF assms(1), of "be16 (hdr ! 14) (hdr ! 15)"] assms(2)
  by (auto simp: parse_v2_def header_v2_def Let_def nth_append split: sum.split)

lemma prefixed_new_simps [simp]:
  "prefixed_content (prefixed_new s p) = p @ content s"
  "prefixed_error_free (prefixed_new s p) = error_free s"
  by (simp_all add: prefixed_new_def prefixed_content_def prefixed_error_free_def)

lemma v2_sig_length [simp]: "length v2_sig = 12"
  by (simp add: v2_sig_def)

lemma take_neq_length: "length bs < k \<Longrightarrow> length t = k \<Longrightarrow> take k bs \<noteq> t"
  by auto

lemma short_not_proxy: "length bs < 6 \<Longrightarrow> header_of_bytes bs = Inr (None, bs)"
  using take_neq_length [of bs 6 "''PROXY ''"] take_neq_length [of bs 12 v2_sig]
  by (simp add: header_of_bytes_def)

definition implements ::
  "proxy_error + proxy_header option \<times> prefixed_stream \<Rightarrow> proxy_error + proxy_header option \<times> string \<Rightarrow> bool" where
  "implements r spec =
     ((case r of Inl e \<Rightarrow> Inl e | Inr (h, p) \<Rightarrow> Inr (h, prefixed_error_free p, prefixed_content p))
      = (case spec of Inl e \<Rightarrow> Inl e | Inr (h, rest) \<Rightarrow> Inr (h, True, rest)))"

lemma v2_stage_implements:
  assumes ok: "error_free s" and len: "12 \<le> length first" "length first \<le> 16"
    and sig: "take 12 first = v2_sig"
  shows "implements
           (case fill 16 first s of
              Inl e \<Rightarrow> Inl e
            | Inr (first, eof, s) \<Rightarrow>
                if eof then Inl EofInV2
                else (case parse_v2 s (take 16 first) of
                        Inl e \<Rightarrow> Inl e
                      | Inr (header, s') \<Rightarrow> Inr (Some header, prefixed_new s' [])))
           (header_v2 (first @ content s))"
proof -
  obtain f eof s' where f: "fill 16 first s = Inr (f, eof, s')" "error_free s'"
      "f @ content s' = first @ content s" "length f \<le> 16"
      "eof \<Longrightarrow> content s' = [] \<and> length f < 16" "\<not> eof \<Longrightarrow> 16 \<le> length f"
    using fill_delivers [OF ok len(2), of 16] by auto
  show ?thesis
  proof (cases eof)
    case True
    with f show ?thesis by (simp add: implements_def header_v2_def flip: f(3))
  next
    case False
    with f(4,6) have "length f = 16" by simp
    with f False parse_v2_implements [OF f(2), of f] show ?thesis
      by (auto simp: implements_def split: sum.split simp flip: f(3))
  qed
qed

lemma later_stages_implement:
  assumes ok: "error_free s" and len: "6 \<le> length first" "length first \<le> 16"
    and v1: "take 6 first \<noteq> ''PROXY ''"
  shows "implements
           (case fill 12 first s of
              Inl e \<Rightarrow> Inl e
            | Inr (first, eof, s) \<Rightarrow>
                if eof then Inr (None, prefixed_new s first)
                else if take 12 first = v2_sig
                then (case fill 16 first s of
                        Inl e \<Rightarrow> Inl e
                      | Inr (first, eof, s) \<Rightarrow>
                          if eof then Inl EofInV2
                          else (case parse_v2 s (take 16 first) of
                                  Inl e \<Rightarrow> Inl e
                                | Inr (header, s') \<Rightarrow> Inr (Some header, prefixed_new s' [])))
                else Inr (None, prefixed_new s first))
           (header_of_bytes (first @ content s))"
proof -
  obtain f eof s' where f: "fill 12 first s = Inr (f, eof, s')" "error_free s'"
      "f @ content s' = first @ content s" "length f \<le> 16"
      "eof \<Longrightarrow> content s' = [] \<and> length f < 12" "\<not> eof \<Longrightarrow> 12 \<le> length f"
    using fill_delivers [OF ok len(2), of 12] by auto
  have v1': "take 6 (f @ content s') \<noteq> ''PROXY ''"
    using v1 len(1) by (simp add: f(3))
  show ?thesis
  proof (cases eof)
    case True
    with f v1' take_neq_length [of f 12 v2_sig] show ?thesis
      by (simp add: implements_def header_of_bytes_def flip: f(3))
  next
    case False
    with f v1' v2_stage_implements [OF f(2) f(6) f(4)] show ?thesis
      by (auto simp: implements_def header_of_bytes_def simp flip: f(3))
  qed
qed

lemma maybe_read_implements:
  assumes "error_free s"
  shows "implements (maybe_read_proxy_header s) (header_of_bytes (content s))"
proof -
  obtain f eof s' where f: "fill 6 [] s = Inr (f, eof, s')" "error_free s'" "f @ content s' = content s"
      "length f \<le> 16" "eof \<Longrightarrow> content s' = [] \<and> length f < 6" "\<not> eof \<Longrightarrow> 6 \<le> length f"
    using fill_delivers [OF assms, of "[]" 6] by auto
  have "implements (maybe_read_proxy_header s) (header_of_bytes (f @ content s'))"
  proof (cases "eof \<or> take 6 f \<noteq> ''PROXY ''")
    case True
    with f short_not_proxy [of f] later_stages_implement [OF f(2) f(6) f(4)] show ?thesis
      by (auto simp: maybe_read_proxy_header_def implements_def)
  next
    case False
    then have "header_of_bytes (f @ content s') = header_v1 (f @ content s')"
      using f(6) by (simp add: header_of_bytes_def)
    with False f parse_v1_implements [OF f(2), of f] show ?thesis
      by (auto simp: maybe_read_proxy_header_def implements_def v1_implements_def split: sum.splits)
  qed
  then show ?thesis
    by (simp add: f(3))
qed

lemma maybe_read_header:
  assumes "error_free s" "header_of_bytes (content s) = Inr (h, rest)" "0 < k" "length rest < n"
  shows "\<exists>p. maybe_read_proxy_header s = Inr (h, p) \<and> read_to_end prefixed_read k n p = Some (Inr rest)"
  using maybe_read_implements [OF assms(1)] assms(2-4) ps.read_to_end_delivers [of _ k n]
  by (auto simp: implements_def split: sum.splits)

section \<open>What a sender writes\<close>

text \<open>A header as a proxy in front of the gateway encodes it.\<close>

definition encode_v1 :: "u32 \<Rightarrow> u16 \<Rightarrow> u32 \<Rightarrow> u16 \<Rightarrow> string" where
  "encode_v1 sip sport dip dport =
     ''PROXY TCP4 '' @ show_ipv4 sip @ '' '' @ show_ipv4 dip @ '' '' @ show_nat (unat sport) @ '' ''
     @ show_nat (unat dport)"

fun to_be :: "nat \<Rightarrow> nat \<Rightarrow> string" where
  "to_be 0 n = []"
| "to_be (Suc k) n = to_be k (n div 256) @ [char_of (n mod 256)]"

fun encode_ip :: "ip_addr \<Rightarrow> string" where
  "encode_ip (V4 w) = to_be 4 (unat w)"
| "encode_ip (V6 w) = to_be 16 (unat w)"

definition encode_v2 :: "proxy_header \<Rightarrow> string \<Rightarrow> string" where
  "encode_v2 h tlvs =
     (let block = encode_ip (sa_ip (src h)) @ encode_ip (sa_ip (dst h))
                  @ to_be 2 (unat (sa_port (src h))) @ to_be 2 (unat (sa_port (dst h))) @ tlvs
      in v2_sig @ [char_of (0x21 :: nat), char_of (if is_ipv4 (sa_ip (src h)) then 0x11 else 0x21 :: nat)]
         @ to_be 2 (length block) @ block)"

subsection \<open>Version 1\<close>

lemma plain_show_ipv4 [simp]: "plain (show_ipv4 w)"
  by (simp add: show_ipv4_def Let_def ascii_ws_def)

lemma split_ws_plain: "plain a \<Longrightarrow> split_ws w (a @ r) = split_ws (w @ a) r"
  by (induction a arbitrary: w) (auto simp: ws_len_plain)

lemma split_ws_space: "split_ws w (CHR '' '' # r) = (if w = [] then [] else [w]) @ split_ws [] r"
  by (simp add: ws_len_def ascii_ws_def)

lemma split_whitespace_encode_v1:
  "split_whitespace (encode_v1 a p b q)
   = [''PROXY'', ''TCP4'', show_ipv4 a, show_ipv4 b, show_nat (unat p), show_nat (unat q)]"
proof -
  have ne: "show_ipv4 w \<noteq> []" for w by (simp add: show_ipv4_def Let_def)
  have cut: "split_ws [] (w @ CHR '' '' # r) = w # split_ws [] r" if "plain w" "w \<noteq> []" for w r
    using that by (simp add: split_ws_plain split_ws_space del: split_ws.simps)
  have last: "split_ws [] (show_nat n) = [show_nat n]" for n
    using split_ws_plain [of "show_nat n" "[]" "[]"] by simp
  have "encode_v1 a p b q = ''PROXY'' @ CHR '' '' # ''TCP4'' @ CHR '' '' # show_ipv4 a @ CHR '' ''
          # show_ipv4 b @ CHR '' '' # show_nat (unat p) @ CHR '' '' # show_nat (unat q)"
    by (simp add: encode_v1_def)
  then show ?thesis
    unfolding split_whitespace_def
    by (simp only: cut last ne show_nat_nonempty plain_show_nat plain_show_ipv4 not_False_eq_True)
       (simp add: cut ascii_ws_def ne last del: append.simps split_ws.simps)
qed

lemma length_show_nat: "n < 10 ^ k \<Longrightarrow> 0 < k \<Longrightarrow> length (show_nat n) \<le> k"
proof (induction k arbitrary: n)
  case (Suc k)
  then show ?case
    by (cases "n < 10"; cases k) (auto simp: show_nat.simps [of n] less_mult_imp_div_less)
qed simp

lemma length_show_ipv4: "length (show_ipv4 w) \<le> 15"
proof -
  have "length (show_nat n) \<le> 3" if "n \<le> 255" for n
    using show_nat_octet_shape(1) [of n] that by simp
  from this [OF ipv4_octets_le(1) [of w]] this [OF ipv4_octets_le(2) [of w]]
    this [OF ipv4_octets_le(3) [of w]] this [OF ipv4_octets_le(4) [of w]]
  show ?thesis by (simp add: show_ipv4_def ipv4_octets_def Let_def)
qed

lemma length_encode_v1: "length (encode_v1 a p b q) \<le> 54"
proof -
  have "length (show_nat (unat x)) \<le> 5" for x :: u16
    using length_show_nat [of "unat x" 5] unat_bound [of x] by simp
  from this [of p] this [of q] length_show_ipv4 [of a] length_show_ipv4 [of b]
  show ?thesis by (simp add: encode_v1_def)
qed

lemma utf8_valid_ascii: "\<forall>c \<in> set s. (of_char c :: nat) < 128 \<Longrightarrow> utf8_valid s"
proof (induction s)
  case (Cons c s)
  then have "utf8_len (c # s) = 1" by (simp add: utf8_len_def Let_def)
  with Cons show ?case by (simp add: utf8_valid.simps [of "c # s"])
qed (simp add: utf8_valid.simps)

lemma find_sub_first:
  "a \<notin> set s \<Longrightarrow> find_sub [a, b] (s @ a # b # r) = Some (length s)"
  by (induction s) (auto simp: starts_with_def)

lemma encode_v1_chars:
  assumes "c \<in> set (encode_v1 a p b q)"
  shows "(of_char c :: nat) < 128" and "c \<noteq> char_of (13 :: nat)"
proof -
  have member: "plain [x]" if "plain s" "x \<in> set s" for x s
    using that by (simp add: plain_def)
  have "c \<in> {CHR '' ''} \<union> set ''PROXYTCP4'' \<union> set (show_ipv4 a) \<union> set (show_ipv4 b)
          \<union> set (show_nat (unat p)) \<union> set (show_nat (unat q))"
    using assms by (auto simp only: encode_v1_def set_append list.set)
  moreover have "plain ''PROXYTCP4''" by (simp add: ascii_ws_def)
  ultimately have "c = CHR '' '' \<or> plain [c]"
    using member plain_show_nat plain_show_ipv4 by blast
  moreover have "char_of (13 :: nat) \<noteq> CHR '' ''"
    by (simp add: char_of_def)
  ultimately show "(of_char c :: nat) < 128" "c \<noteq> char_of (13 :: nat)"
    by (auto simp: ascii_ws_def)
qed

lemma parse_ip_show_ipv4: "parse_ip (show_ipv4 w) = Some (V4 w)"
  using read_ipv4_show [of "[]" w] by (simp add: parse_ip_def)

lemma header_of_encode_v1:
  "header_of_bytes (encode_v1 a p b q @ crlf @ payload)
   = Inr (Some \<lparr>src = \<lparr>sa_ip = V4 a, sa_port = p\<rparr>, dst = \<lparr>sa_ip = V4 b, sa_port = q\<rparr>\<rparr>, payload)"
proof -
  let ?l = "encode_v1 a p b q"
  have "find_sub crlf (take 109 (?l @ crlf @ payload)) = Some (length ?l)"
  proof -
    have "take 109 (?l @ crlf @ payload)
          = ?l @ char_of (13 :: nat) # char_of (10 :: nat) # take (107 - length ?l) payload"
      using length_encode_v1 [of a p b q] by (simp add: crlf_def numeral_eq_Suc take_Cons')
    moreover have "char_of (13 :: nat) \<notin> set ?l"
      using encode_v1_chars(2) by blast
    ultimately show ?thesis
      by (simp only: crlf_def find_sub_first not_False_eq_True)
  qed
  moreover have "take 6 (?l @ crlf @ payload) = ''PROXY ''"
    by (simp add: encode_v1_def)
  moreover have "utf8_valid ?l"
    using encode_v1_chars(1) by (blast intro: utf8_valid_ascii)
  moreover have "length crlf = 2" by (simp add: crlf_def)
  ultimately show ?thesis
    by (simp add: header_of_bytes_def header_v1_def parse_v1_line_def split_whitespace_encode_v1
        parse_ip_show_ipv4 parse_u16_show Let_def)
qed

subsection \<open>Version 2\<close>

lemma length_to_be [simp]: "length (to_be k n) = k"
  by (induction k arbitrary: n) auto

lemma nat_of_be_to_be: "nat_of_be 256 (map of_char (to_be k n)) = n mod 256 ^ k"
proof (induction k arbitrary: n)
  case (Suc k)
  have "nat_of_be 256 (map of_char (to_be (Suc k) n))
        = nat_of_be 256 (map of_char (to_be k (n div 256))) * 256 + n mod 256"
    by (simp add: nat_of_be_def)
  also have "\<dots> = n mod 256 ^ Suc k"
    by (simp add: Suc.IH mod_mult2_eq mult.commute)
  finally show ?case .
qed (simp add: nat_of_be_def)

lemma take_two: "length r \<ge> i + 2 \<Longrightarrow> take 2 (drop i r) = [r ! i, r ! (i + 1)]"
  by (simp add: numeral_2_eq_2 Cons_nth_drop_Suc [symmetric])

lemma take_four:
  "length r \<ge> i + 4 \<Longrightarrow> take 4 (drop i r) = [r ! i, r ! (i + 1), r ! (i + 2), r ! (i + 3)]"
  by (simp add: numeral_eq_Suc Cons_nth_drop_Suc [symmetric])

lemma be16_nat_of_be:
  "length r \<ge> i + 2 \<Longrightarrow> be16 (r ! i) (r ! (i + 1)) = nat_of_be 256 (map of_char (take 2 (drop i r)))"
  by (simp add: take_two be16_def nat_of_be_def)

lemma unat_of_char_u8 [simp]: "unat (of_char c :: u8) = of_char c"
proof -
  have "(of_char c :: u8) = of_nat (of_char c)" by (simp only: of_nat_of_char)
  moreover have "(of_char c :: nat) < 256" by simp
  ultimately show ?thesis by (simp only: unat_of_nat) simp
qed

lemma v2_ipv4_nat_of_be:
  "length r \<ge> i + 4 \<Longrightarrow> v2_ipv4 r i = V4 (of_nat (nat_of_be 256 (map of_char (take 4 (drop i r)))))"
  by (simp add: take_four v2_ipv4_def ipv4_new_def)

definition v2_block :: "proxy_header \<Rightarrow> string \<Rightarrow> string" where
  "v2_block h tlvs =
     encode_ip (sa_ip (src h)) @ encode_ip (sa_ip (dst h))
     @ to_be 2 (unat (sa_port (src h))) @ to_be 2 (unat (sa_port (dst h))) @ tlvs"

lemma of_char_char_of_u8: "(of_char (char_of (n :: nat)) :: u8) = of_nat n"
proof -
  have "(of_char (char_of n) :: u8) = of_nat (of_char (char_of n))" by (simp only: of_nat_of_char)
  also have "\<dots> = of_nat (n mod 2 ^ LENGTH(8))" by simp
  also have "\<dots> = of_nat n" by (simp only: word_of_nat_eq_iff take_bit_eq_mod) simp
  finally show ?thesis .
qed

lemma port_to_be: "of_nat (nat_of_be 256 (map of_char (to_be 2 (unat (p :: u16))))) = p"
  using unat_bound [of p] by (simp add: nat_of_be_to_be)

lemma ipv4_to_be: "of_nat (nat_of_be 256 (map of_char (to_be 4 (unat (w :: u32))))) = w"
  using unat_bound [of w] by (simp add: nat_of_be_to_be)

lemma ipv6_to_be: "of_nat (nat_of_be 256 (map of_char (to_be 16 (unat (w :: u128))))) = w"
  using unat_bound [of w] by (simp add: nat_of_be_to_be)

lemmas be_decode = be16_nat_of_be [of 8, simplified] be16_nat_of_be [of 10, simplified]
  be16_nat_of_be [of 32, simplified] be16_nat_of_be [of 34, simplified]
  v2_ipv4_nat_of_be v2_ipv6_def port_to_be ipv4_to_be ipv6_to_be

lemma decode_v2_block:
  assumes fam: "is_ipv4 (sa_ip (src h)) = is_ipv4 (sa_ip (dst h))"
    and hdr: "hdr ! 12 = char_of (0x21 :: nat)"
      "hdr ! 13 = char_of (if is_ipv4 (sa_ip (src h)) then 0x11 else 0x21 :: nat)"
  shows "decode_v2 hdr (v2_block h tlvs) = Inr h"
proof (cases "sa_ip (src h)")
  case (V4 a)
  then obtain b where b: "sa_ip (dst h) = V4 b"
    using fam by (cases "sa_ip (dst h)") auto
  have "decode_v2 hdr (v2_block h tlvs)
        = Inr \<lparr>src = \<lparr>sa_ip = V4 a, sa_port = sa_port (src h)\<rparr>, dst = \<lparr>sa_ip = V4 b, sa_port = sa_port (dst h)\<rparr>\<rparr>"
    using hdr V4 b by (simp add: decode_v2_def v2_block_def of_char_char_of_u8 be_decode Let_def)
  with V4 b show ?thesis by simp
next
  case (V6 a)
  then obtain b where b: "sa_ip (dst h) = V6 b"
    using fam by (cases "sa_ip (dst h)") auto
  have "decode_v2 hdr (v2_block h tlvs)
        = Inr \<lparr>src = \<lparr>sa_ip = V6 a, sa_port = sa_port (src h)\<rparr>, dst = \<lparr>sa_ip = V6 b, sa_port = sa_port (dst h)\<rparr>\<rparr>"
    using hdr V6 b by (simp add: decode_v2_def v2_block_def of_char_char_of_u8 be_decode Let_def)
  with V6 b show ?thesis by simp
qed

lemma header_of_encode_v2:
  assumes fam: "is_ipv4 (sa_ip (src h)) = is_ipv4 (sa_ip (dst h))"
    and len: "length (v2_block h tlvs) < 65536"
  shows "header_of_bytes (encode_v2 h tlvs @ payload) = Inr (Some h, payload)"
proof -
  define hdr where "hdr = v2_sig @ [char_of (0x21 :: nat),
      char_of (if is_ipv4 (sa_ip (src h)) then 0x11 else 0x21 :: nat)] @ to_be 2 (length (v2_block h tlvs))"
  have enc: "encode_v2 h tlvs @ payload = hdr @ v2_block h tlvs @ payload"
    by (simp add: encode_v2_def v2_block_def hdr_def)
  have h16: "length hdr = 16" by (simp add: hdr_def)
  have h12: "hdr ! 12 = char_of (0x21 :: nat)"
    "hdr ! 13 = char_of (if is_ipv4 (sa_ip (src h)) then 0x11 else 0x21 :: nat)"
    by (simp_all add: hdr_def nth_append)
  have "be16 (hdr ! 14) (hdr ! 15) = length (v2_block h tlvs)"
    using be16_nat_of_be [of 14 hdr] h16 len by (simp add: hdr_def nat_of_be_to_be)
  then have "header_v2 (hdr @ v2_block h tlvs @ payload) = Inr (Some h, payload)"
    using h16 decode_v2_block [OF fam h12] by (simp add: header_v2_def nth_append Let_def)
  moreover have "take 12 (hdr @ v2_block h tlvs @ payload) = v2_sig"
    by (simp add: hdr_def)
  moreover have "take 6 (hdr @ v2_block h tlvs @ payload) \<noteq> ''PROXY ''"
    by (simp add: hdr_def v2_sig_def char_of_def)
  ultimately show ?thesis
    unfolding enc header_of_bytes_def by simp
qed

section \<open>Bounds\<close>

lemma find_sub_bound: "find_sub n s = Some i \<Longrightarrow> i + length n \<le> length s"
proof (induction s arbitrary: i)
  case (Cons c s)
  then show ?case by (auto split: if_splits dest: starts_with_length)
qed (simp split: if_splits)

lemma be16_bound: "be16 a b \<le> 65535"
proof -
  have "(of_char c :: nat) < 256" for c by simp
  from this [of a] this [of b] show ?thesis unfolding be16_def by linarith
qed

lemma header_taken:
  assumes "header_of_bytes bs = Inr (h, rest)"
  shows "\<exists>taken. bs = taken @ rest
           \<and> length taken \<le> (if h = None then 0 else if take 6 bs = ''PROXY '' then 109 else 65551)"
proof -
  define v1 where "v1 = (take 6 bs = ''PROXY '')"
  define v2 where "v2 = (take 12 bs = v2_sig)"
  consider v1 "header_v1 bs = Inr (h, rest)" | "\<not> v1" "header_v2 bs = Inr (h, rest)" | "h = None" "rest = bs"
    using assms unfolding header_of_bytes_def v1_def [symmetric] v2_def [symmetric] by (cases v1; cases v2) auto
  then have "\<exists>taken. bs = taken @ rest \<and> length taken \<le> (if h = None then 0 else if v1 then 109 else 65551)"
  proof cases
    case 1
    then obtain pos where p: "find_sub crlf (take 109 bs) = Some pos" "rest = drop (pos + 2) bs" "h \<noteq> None"
      by (auto simp: header_v1_def split: option.splits if_splits sum.splits)
    have "pos + 2 \<le> 109" "pos + 2 \<le> length bs"
      using find_sub_bound [OF p(1)] by (simp_all add: crlf_def)
    then show ?thesis
      using 1(1) p by (intro exI [of _ "take (pos + 2) bs"]) simp
  next
    case 2
    then have "rest = drop (16 + be16 (bs ! 14) (bs ! 15)) bs" "h \<noteq> None"
      by (auto simp: header_v2_def Let_def split: if_splits sum.splits)
    then show ?thesis
      using 2(1) be16_bound [of "bs ! 14" "bs ! 15"]
      by (intro exI [of _ "take (16 + be16 (bs ! 14) (bs ! 15)) bs"]) auto
  qed auto
  then show ?thesis by (simp only: v1_def)
qed

section \<open>Writing\<close>

text \<open>Writing through the wrapper is writing to the inner stream, and leaves what is still to be read alone.\<close>

lemma on_inner_spec:
  assumes "on_inner f s = (r, s')"
  shows "f (pio_write s) = (r, pio_write s')" "pio_read s' = pio_read s"
  using assms by (auto simp: on_inner_def split: prod.splits)

lemma prefixed_write_transparent:
  "aw_poll_write (prefixed_write A) buf s = (r, s') \<Longrightarrow>
     aw_poll_write A buf (pio_write s) = (r, pio_write s') \<and> pio_read s' = pio_read s"
  "aw_poll_flush (prefixed_write A) s = (u, s') \<Longrightarrow>
     aw_poll_flush A (pio_write s) = (u, pio_write s') \<and> pio_read s' = pio_read s"
  "aw_poll_shutdown (prefixed_write A) s = (u, s') \<Longrightarrow>
     aw_poll_shutdown A (pio_write s) = (u, pio_write s') \<and> pio_read s' = pio_read s"
  "aw_poll_write_vectored (prefixed_write A) bufs s = (r, s') \<Longrightarrow>
     aw_poll_write_vectored A bufs (pio_write s) = (r, pio_write s') \<and> pio_read s' = pio_read s"
  by (auto simp: prefixed_write_def dest: on_inner_spec)

section \<open>Properties\<close>

text \<open>C35. Reading a PROXY header does not depend on how the network splits the bytes: on any
  connection without read failures \<open>maybe_read_proxy_header\<close> gives exactly the result of the abstract
  reader on the bytes of the connection, error or header, and the stream it returns delivers exactly
  the bytes that follow the header (all of them when there is no header).\<close>

theorem proxy_header_refines_bytes:
  assumes "error_free s"
  shows "(case maybe_read_proxy_header s of
            Inl e \<Rightarrow> Inl e
          | Inr (h, p) \<Rightarrow> Inr (h, prefixed_error_free p, prefixed_content p))
       = (case header_of_bytes (content s) of
            Inl e \<Rightarrow> Inl e
          | Inr (h, rest) \<Rightarrow> Inr (h, True, rest))"
  using maybe_read_implements [OF assms] unfolding implements_def .

theorem proxy_header_refines_bytes_witness:
  "error_free [Data ''GE'', Data ''T /''] \<and>
   (case maybe_read_proxy_header [Data ''GE'', Data ''T /''] of
      Inl e \<Rightarrow> Inl e
    | Inr (h, p) \<Rightarrow> Inr (h, prefixed_error_free p, prefixed_content p))
   = (Inr (None, True, ''GET /'') :: proxy_error + proxy_header option \<times> bool \<times> string)"
  using proxy_header_refines_bytes [of "[Data ''GE'', Data ''T /'']"]
  by (simp add: error_free_def short_not_proxy)

text \<open>Traffic without a PROXY header is passed through untouched: when the first bytes of a
  connection are neither the text of version 1 nor the signature of version 2, no header is reported
  and reading the returned stream to its end gives every byte of the connection, in order, with any
  buffer size.\<close>

theorem non_proxy_bytes_preserved:
  assumes "error_free s" "take 6 (content s) \<noteq> ''PROXY ''" "take 12 (content s) \<noteq> v2_sig"
    and "0 < k" "length (content s) < n"
  shows "\<exists>p. maybe_read_proxy_header s = Inr (None, p)
             \<and> read_to_end prefixed_read k n p = Some (Inr (content s))"
  using assms by (intro maybe_read_header) (simp_all add: header_of_bytes_def)

theorem non_proxy_bytes_preserved_witness:
  "\<exists>p. maybe_read_proxy_header [Data ''GET / HT'', Data ''TP/1.1''] = Inr (None, p)
       \<and> read_to_end prefixed_read 4 20 p = Some (Inr ''GET / HTTP/1.1'')"
  using non_proxy_bytes_preserved [of "[Data ''GET / HT'', Data ''TP/1.1'']" 4 20]
  by (simp add: error_free_def v2_sig_def char_of_def)

text \<open>C28. Reading a header is bounded whatever a peer sends: a version 1 header takes at most 109 bytes from
  the connection and a version 2 header at most 16 bytes and the 65535 its length field can announce;
  without a header nothing is taken; and a version 1 line that does not end within 109 bytes is rejected
  instead of being read on.\<close>

theorem proxy_header_bounded:
  assumes "error_free s"
  shows "(\<forall>h p. maybe_read_proxy_header s = Inr (h, p) \<longrightarrow>
            (\<exists>taken. content s = taken @ prefixed_content p
               \<and> length taken \<le> (if h = None then 0 else if take 6 (content s) = ''PROXY '' then 109 else 65551)))
         \<and> (take 6 (content s) = ''PROXY '' \<and> 109 \<le> length (content s) \<and> find_sub crlf (take 109 (content s)) = None
              \<longrightarrow> maybe_read_proxy_header s = Inl V1TooLong)"
proof (intro conjI allI impI)
  fix h p assume "maybe_read_proxy_header s = Inr (h, p)"
  with maybe_read_implements [OF assms] have "header_of_bytes (content s) = Inr (h, prefixed_content p)"
    by (auto simp: implements_def split: sum.splits)
  then show "\<exists>taken. content s = taken @ prefixed_content p
               \<and> length taken \<le> (if h = None then 0 else if take 6 (content s) = ''PROXY '' then 109 else 65551)"
    by (rule header_taken)
next
  assume "take 6 (content s) = ''PROXY '' \<and> 109 \<le> length (content s) \<and> find_sub crlf (take 109 (content s)) = None"
  then have "header_of_bytes (content s) = Inl V1TooLong"
    by (simp add: header_of_bytes_def header_v1_def)
  with maybe_read_implements [OF assms] show "maybe_read_proxy_header s = Inl V1TooLong"
    by (auto simp: implements_def split: sum.splits)
qed

theorem proxy_header_bounded_witness:
  "maybe_read_proxy_header [Data ''PROXY '', Data (replicate 200 (CHR ''x''))] = Inl V1TooLong"
proof -
  let ?s = "[Data ''PROXY '', Data (replicate 200 (CHR ''x''))]"
  have "error_free ?s" by (simp add: error_free_def)
  moreover have "take 6 (content ?s) = ''PROXY ''" "109 \<le> length (content ?s)" by simp_all
  moreover have "find_sub crlf (take 109 (content ?s)) = None" by code_simp
  ultimately show ?thesis using proxy_header_bounded by blast
qed

text \<open>C36. A version 1 header for TCP over IPv4 is read back exactly: whatever the read sizes, the
  header carries the addresses and ports the sender wrote and the bytes after the line reach the HTTP
  server unchanged.\<close>

theorem proxy_v1_roundtrip:
  assumes "error_free s" "content s = encode_v1 sip sport dip dport @ crlf @ payload"
    and "0 < k" "length payload < n"
  shows "\<exists>p. maybe_read_proxy_header s =
               Inr (Some \<lparr>src = \<lparr>sa_ip = V4 sip, sa_port = sport\<rparr>,
                          dst = \<lparr>sa_ip = V4 dip, sa_port = dport\<rparr>\<rparr>, p)
             \<and> read_to_end prefixed_read k n p = Some (Inr payload)"
  using assms by (intro maybe_read_header) (simp_all add: header_of_encode_v1)

theorem proxy_v1_roundtrip_witness:
  "\<exists>p. maybe_read_proxy_header [Data (encode_v1 0x01020304 12345 0x05060708 80), Data (crlf @ ''GET /'')] =
         Inr (Some \<lparr>src = \<lparr>sa_ip = V4 0x01020304, sa_port = 12345\<rparr>,
                    dst = \<lparr>sa_ip = V4 0x05060708, sa_port = 80\<rparr>\<rparr>, p)
       \<and> read_to_end prefixed_read 3 9 p = Some (Inr ''GET /'')"
  by (rule proxy_v1_roundtrip) (simp_all add: error_free_def)

text \<open>C37. A version 2 header is read back exactly for IPv4 and for IPv6, with or without type-length
  vectors after the addresses: the header is the sender's and the bytes after it reach the HTTP server
  unchanged.\<close>

theorem proxy_v2_roundtrip:
  assumes "error_free s" "content s = encode_v2 h tlvs @ payload"
    and "is_ipv4 (sa_ip (src h)) = is_ipv4 (sa_ip (dst h))" "length (v2_block h tlvs) < 65536"
    and "0 < k" "length payload < n"
  shows "\<exists>p. maybe_read_proxy_header s = Inr (Some h, p)
             \<and> read_to_end prefixed_read k n p = Some (Inr payload)"
  using assms by (intro maybe_read_header) (simp_all add: header_of_encode_v2)

theorem proxy_v2_roundtrip_witness:
  "\<exists>p. maybe_read_proxy_header
         [Data (encode_v2 \<lparr>src = \<lparr>sa_ip = V6 1, sa_port = 443\<rparr>, dst = \<lparr>sa_ip = V6 2, sa_port = 80\<rparr>\<rparr> ''tlv''),
          Data ''GET /''] =
         Inr (Some \<lparr>src = \<lparr>sa_ip = V6 1, sa_port = 443\<rparr>, dst = \<lparr>sa_ip = V6 2, sa_port = 80\<rparr>\<rparr>, p)
       \<and> read_to_end prefixed_read 3 9 p = Some (Inr ''GET /'')"
proof (rule proxy_v2_roundtrip)
  have "length ''tlv'' = 3" by simp
  then show "length (v2_block \<lparr>src = \<lparr>sa_ip = V6 1, sa_port = 443\<rparr>, dst = \<lparr>sa_ip = V6 2, sa_port = 80\<rparr>\<rparr> ''tlv'') < 65536"
    by (simp only: v2_block_def length_append) simp
qed (simp_all add: error_free_def)



end
