(* ===== verification/Health.thy ===== *)
theory Health
  imports Router
begin

text \<open>
  The active health checker of \<open>src/health/mod.rs\<close>. The HTTP client is an argument: a probe of a URL
  with a timeout returns the response status, or \<open>None\<close> for an error or a timeout, and may change
  the outside world \<open>'env\<close>. The loop of \<open>run_health_checks\<close> is infinite; \<open>health_round\<close> is one turn
  of it over all upstreams of all balancers.
\<close>

section \<open>Definitions\<close>

record threshold_state =
  fails :: u32
  successes :: u32

text \<open>
  The shared state the checker works on: its own table of thresholds, the store of balancers and
  the gauge \<open>upstream_health\<close> by upstream address.
\<close>

record health_world =
  hw_state :: "string \<rightharpoonup> threshold_state"
  hw_store :: "load_balancer list"
  hw_gauge :: "string \<rightharpoonup> int"

definition check_url :: "string \<Rightarrow> string \<Rightarrow> string" where
  "check_url addr path =
     trim_end_matches (CHR ''/'') addr @ (if starts_with path ''/'' then path else ''/'' @ path)"

definition status_healthy :: "nat \<Rightarrow> bool" where
  "status_healthy s = ((200 \<le> s \<and> s < 300) \<or> (300 \<le> s \<and> s < 400) \<or> s = 404)"

definition check_one ::
  "(string \<Rightarrow> uri option) \<Rightarrow> ('env \<Rightarrow> string \<Rightarrow> duration \<Rightarrow> nat option \<times> 'env)
     \<Rightarrow> string \<Rightarrow> string \<Rightarrow> duration \<Rightarrow> 'env \<Rightarrow> bool \<times> 'env" where
  "check_one parse_uri probe addr path timeout env =
     (let url = check_url addr path
      in case parse_uri url of
           None \<Rightarrow> (False, env)
         | Some _ \<Rightarrow>
             (case probe env url timeout of
                (Some status, env') \<Rightarrow> (status_healthy status, env')
              | (None, env') \<Rightarrow> (False, env')))"

text \<open>The update of one entry and one flag; the counters wrap at 32 bits.\<close>

definition observe :: "health_check_config \<Rightarrow> threshold_state \<times> bool \<Rightarrow> bool \<Rightarrow> threshold_state \<times> bool" where
  "observe cfg eu healthy_now =
     (case eu of (entry, up) \<Rightarrow>
        if healthy_now
        then (let entry = \<lparr>fails = 0, successes = successes entry + 1\<rparr>
              in (entry, if \<not> up \<and> successes entry \<ge> max (healthy_threshold cfg) 1 then True else up))
        else (let entry = \<lparr>fails = fails entry + 1, successes = 0\<rparr>
              in (entry, if up \<and> fails entry \<ge> max (unhealthy_threshold cfg) 1 then False else up)))"

definition initial_entry :: threshold_state where
  "initial_entry = \<lparr>fails = 0, successes = 0\<rparr>"

text \<open>The body of the inner loop for upstream \<open>i\<close> of balancer \<open>l\<close>, after the probe.\<close>

definition check_upstream ::
  "health_check_config \<Rightarrow> bool \<Rightarrow> lb_ref \<times> nat \<Rightarrow> health_world \<Rightarrow> health_world" where
  "check_upstream cfg healthy_now t w =
     (case t of (l, i) \<Rightarrow>
        (let u = lb_upstreams (hw_store w ! l) ! i;
             entry = (case hw_state w (rt_address u) of None \<Rightarrow> initial_entry | Some e \<Rightarrow> e)
         in case observe cfg (entry, healthy u) healthy_now of
              (entry', up) \<Rightarrow>
                w\<lparr>hw_state := (hw_state w)(rt_address u \<mapsto> entry'),
                  hw_store := (hw_store w)[l := update_upstream i (set_healthy up) (hw_store w ! l)],
                  hw_gauge := (hw_gauge w)(rt_address u \<mapsto> if up then 1 else 0)\<rparr>))"

text \<open>The upstreams a round visits, in order.\<close>

definition targets :: "lb_ref list \<Rightarrow> load_balancer list \<Rightarrow> (lb_ref \<times> nat) list" where
  "targets lbs store = concat (map (\<lambda>l. map (Pair l) [0..<length (lb_upstreams (store ! l))]) lbs)"

fun check_targets ::
  "(string \<Rightarrow> uri option) \<Rightarrow> ('env \<Rightarrow> string \<Rightarrow> duration \<Rightarrow> nat option \<times> 'env) \<Rightarrow> health_check_config
     \<Rightarrow> (lb_ref \<times> nat) list \<Rightarrow> 'env \<Rightarrow> health_world \<Rightarrow> 'env \<times> health_world" where
  "check_targets parse_uri probe cfg [] env w = (env, w)"
| "check_targets parse_uri probe cfg ((l, i) # ts) env w =
     (case check_one parse_uri probe (rt_address (lb_upstreams (hw_store w ! l) ! i)) (health_path cfg)
             (from_secs (max (timeout_secs cfg) 1)) env of
        (ok, env') \<Rightarrow> check_targets parse_uri probe cfg ts env' (check_upstream cfg ok (l, i) w))"

definition health_round ::
  "(string \<Rightarrow> uri option) \<Rightarrow> ('env \<Rightarrow> string \<Rightarrow> duration \<Rightarrow> nat option \<times> 'env) \<Rightarrow> health_check_config
     \<Rightarrow> lb_ref list \<Rightarrow> 'env \<Rightarrow> health_world \<Rightarrow> 'env \<times> health_world" where
  "health_round parse_uri probe cfg lbs env w =
     check_targets parse_uri probe cfg (targets lbs (hw_store w)) env w"

text \<open>The pause between two rounds.\<close>

definition round_interval :: "health_check_config \<Rightarrow> duration" where
  "round_interval cfg = from_secs (max (interval_secs cfg) 1)"

text \<open>What a sequence of probe results does to one upstream that is the only one with its address.\<close>

definition observe_all :: "health_check_config \<Rightarrow> bool list \<Rightarrow> threshold_state \<times> bool" where
  "observe_all cfg bs = foldl (observe cfg) (initial_entry, True) bs"

section \<open>Thresholds\<close>

text \<open>The length of the run of equal results at the end of a sequence.\<close>

definition trailing :: "bool \<Rightarrow> bool list \<Rightarrow> nat" where
  "trailing b bs = length (takeWhile (\<lambda>x. x = b) (rev bs))"

lemma trailing_Nil [simp]: "trailing b [] = 0"
  by (simp add: trailing_def)

lemma trailing_snoc [simp]: "trailing b (bs @ [x]) = (if x = b then Suc (trailing b bs) else 0)"
  by (simp add: trailing_def)

lemma trailing_le: "trailing b bs \<le> length bs"
  unfolding trailing_def by (metis length_rev length_takeWhile_le)

lemma trailing_replicate: "n \<le> trailing b (bs @ replicate n b)"
  by (simp add: trailing_def takeWhile_append)

lemma observe_all_snoc [simp]: "observe_all cfg (bs @ [b]) = observe cfg (observe_all cfg bs) b"
  by (simp add: observe_all_def)

text \<open>While they do not wrap, the counters are the lengths of the current runs.\<close>

lemma observe_all_counters:
  assumes "length bs < 2 ^ 32"
  shows "unat (fails (fst (observe_all cfg bs))) = trailing False bs
       \<and> unat (successes (fst (observe_all cfg bs))) = trailing True bs"
  using assms
proof (induction bs rule: rev_induct)
  case Nil
  then show ?case by (simp add: observe_all_def initial_entry_def)
next
  case (snoc b bs)
  then have IH: "unat (fails (fst (observe_all cfg bs))) = trailing False bs"
    "unat (successes (fst (observe_all cfg bs))) = trailing True bs" by simp_all
  have "trailing False bs + 1 < 2 ^ 32" "trailing True bs + 1 < 2 ^ 32"
    using trailing_le [of False bs] trailing_le [of True bs] snoc.prems by simp_all
  then show ?case
    using IH unat_add_one [of "fails (fst (observe_all cfg bs))"]
      unat_add_one [of "successes (fst (observe_all cfg bs))"]
    by (cases b) (simp_all add: observe_def Let_def case_prod_beta)
qed

lemma observe_all_flag:
  assumes "length bs + 1 < 2 ^ 32"
  shows "snd (observe_all cfg (bs @ [b])) =
     (if snd (observe_all cfg bs) then \<not> (unat (max (unhealthy_threshold cfg) 1) \<le> trailing False (bs @ [b]))
      else unat (max (healthy_threshold cfg) 1) \<le> trailing True (bs @ [b]))"
proof -
  have c: "unat (fails (fst (observe_all cfg (bs @ [b])))) = trailing False (bs @ [b])"
    "unat (successes (fst (observe_all cfg (bs @ [b])))) = trailing True (bs @ [b])"
    using observe_all_counters [of "bs @ [b]" cfg] assms by simp_all
  show ?thesis
    using c unat_max_one_pos [of "unhealthy_threshold cfg"] unat_max_one_pos [of "healthy_threshold cfg"]
    by (cases b) (simp_all add: observe_def Let_def case_prod_beta word_le_nat_alt)
qed

section \<open>A round\<close>

text \<open>The entry and the flag of one target, and the order in which a round obtains its results.\<close>

definition target_addr :: "health_world \<Rightarrow> lb_ref \<times> nat \<Rightarrow> string" where
  "target_addr w t = rt_address (lb_upstreams (hw_store w ! fst t) ! snd t)"

definition view :: "health_world \<Rightarrow> lb_ref \<times> nat \<Rightarrow> threshold_state \<times> bool" where
  "view w t =
     (case hw_state w (target_addr w t) of None \<Rightarrow> initial_entry | Some e \<Rightarrow> e,
      healthy (lb_upstreams (hw_store w ! fst t) ! snd t))"

fun probe_all ::
  "(string \<Rightarrow> uri option) \<Rightarrow> ('env \<Rightarrow> string \<Rightarrow> duration \<Rightarrow> nat option \<times> 'env)
     \<Rightarrow> string \<Rightarrow> duration \<Rightarrow> 'env \<Rightarrow> string list \<Rightarrow> bool list" where
  "probe_all parse_uri probe path timeout env [] = []"
| "probe_all parse_uri probe path timeout env (a # as) =
     (case check_one parse_uri probe a path timeout env of
        (ok, env') \<Rightarrow> ok # probe_all parse_uri probe path timeout env' as)"

definition valid_target :: "health_world \<Rightarrow> lb_ref \<times> nat \<Rightarrow> bool" where
  "valid_target w t \<longleftrightarrow> fst t < length (hw_store w) \<and> snd t < length (lb_upstreams (hw_store w ! fst t))"

lemma check_upstream_shape:
  assumes "valid_target w t"
  shows "valid_target (check_upstream cfg ok t w) t' = valid_target w t'"
    and "valid_target w t' \<Longrightarrow> target_addr (check_upstream cfg ok t w) t' = target_addr w t'"
  using assms
  by (auto simp: check_upstream_def valid_target_def target_addr_def update_upstream_def set_healthy_def
      Let_def nth_list_update split: prod.splits if_splits)

lemma check_upstream_view:
  assumes "valid_target w t"
  shows "view (check_upstream cfg ok t w) t = observe cfg (view w t) ok"
    and "hw_gauge (check_upstream cfg ok t w) (target_addr w t)
           = Some (if snd (observe cfg (view w t) ok) then 1 else 0)"
  using assms
  by (auto simp: check_upstream_def valid_target_def target_addr_def view_def update_upstream_def
      set_healthy_def Let_def split: prod.splits)

lemma check_upstream_other:
  assumes "valid_target w t" and "valid_target w t'" and "target_addr w t' \<noteq> target_addr w t"
  shows "view (check_upstream cfg ok t w) t' = view w t'"
    and "hw_gauge (check_upstream cfg ok t w) (target_addr w t') = hw_gauge w (target_addr w t')"
  using assms
  by (auto simp: check_upstream_def valid_target_def target_addr_def view_def update_upstream_def
      set_healthy_def Let_def nth_list_update split: prod.splits if_splits)

lemma check_targets_frame:
  assumes "\<forall>t \<in> set ts. valid_target w t" and "valid_target w t'"
    and "target_addr w t' \<notin> target_addr w ` set ts"
    and "check_targets parse_uri probe cfg ts env w = (env', w')"
  shows "view w' t' = view w t' \<and> target_addr w' t' = target_addr w t'
       \<and> hw_gauge w' (target_addr w t') = hw_gauge w (target_addr w t')"
  using assms
proof (induction ts arbitrary: env w)
  case (Cons t ts)
  obtain l i where t: "t = (l, i)" by force
  obtain ok env1 where c: "check_one parse_uri probe (target_addr w t) (health_path cfg)
      (from_secs (max (timeout_secs cfg) 1)) env = (ok, env1)" by force
  let ?w = "check_upstream cfg ok t w"
  have vt: "valid_target w t" using Cons.prems(1) by simp
  have r: "check_targets parse_uri probe cfg ts env1 ?w = (env', w')"
    using Cons.prems(4) c by (simp add: t target_addr_def)
  have addrs: "target_addr ?w t'' = target_addr w t''" if "t'' \<in> set ts" for t''
    using check_upstream_shape(2) [OF vt] Cons.prems(1) that by simp
  have "view w' t' = view ?w t' \<and> target_addr w' t' = target_addr ?w t'
       \<and> hw_gauge w' (target_addr ?w t') = hw_gauge ?w (target_addr ?w t')"
    using Cons.prems(1,2,3) addrs check_upstream_shape [OF vt]
    by (intro Cons.IH [OF _ _ _ r]) auto
  then show ?case
    using check_upstream_other [OF vt Cons.prems(2)] check_upstream_shape(2) [OF vt Cons.prems(2)] Cons.prems(3)
    by auto
qed simp

lemma check_targets_view:
  assumes "\<forall>t \<in> set ts. valid_target w t" and "distinct (map (target_addr w) ts)"
    and "check_targets parse_uri probe cfg ts env w = (env', w')" and "k < length ts"
  shows "view w' (ts ! k) = observe cfg (view w (ts ! k))
           (probe_all parse_uri probe (health_path cfg) (from_secs (max (timeout_secs cfg) 1)) env
              (map (target_addr w) ts) ! k)
       \<and> hw_gauge w' (target_addr w (ts ! k)) = Some (if snd (view w' (ts ! k)) then 1 else 0)"
  using assms
proof (induction ts arbitrary: env w k)
  case (Cons t ts)
  obtain l i where t: "t = (l, i)" by force
  obtain ok env1 where c: "check_one parse_uri probe (target_addr w t) (health_path cfg)
      (from_secs (max (timeout_secs cfg) 1)) env = (ok, env1)" by force
  let ?w = "check_upstream cfg ok t w"
  have vt: "valid_target w t" using Cons.prems(1) by simp
  have r: "check_targets parse_uri probe cfg ts env1 ?w = (env', w')"
    using Cons.prems(3) c by (simp add: t target_addr_def)
  have vts: "\<forall>t \<in> set ts. valid_target ?w t"
    using check_upstream_shape(1) [OF vt] Cons.prems(1) by simp
  have addrs: "map (target_addr ?w) ts = map (target_addr w) ts"
    using check_upstream_shape(2) [OF vt] Cons.prems(1) by simp
  have dw: "distinct (map (target_addr ?w) ts)"
    unfolding addrs using Cons.prems(2) by simp
  show ?case
  proof (cases k)
    case 0
    have nin: "target_addr ?w t \<notin> target_addr ?w ` set ts"
      using Cons.prems(2) check_upstream_shape(2) [OF vt vt] addrs by (metis distinct.simps(2) list.simps(9) set_map)
    then have "view w' t = view ?w t \<and> hw_gauge w' (target_addr ?w t) = hw_gauge ?w (target_addr ?w t)"
      using check_targets_frame [OF vts _ nin r] check_upstream_shape(1) [OF vt] vt by simp
    then show ?thesis
      using check_upstream_view [OF vt] check_upstream_shape(2) [OF vt vt] c by (simp add: 0)
  next
    case (Suc j)
    then have j: "j < length ts" using Cons.prems(4) by simp
    have "\<forall>x \<in> set ts. target_addr w x \<noteq> target_addr w t \<and> valid_target w x"
      using Cons.prems(1,2) by (simp add: image_iff) metis
    then have ne: "target_addr w (ts ! j) \<noteq> target_addr w t" "valid_target w (ts ! j)"
      using nth_mem [OF j] by blast+
    have "view w' (ts ! j) = observe cfg (view ?w (ts ! j))
           (probe_all parse_uri probe (health_path cfg) (from_secs (max (timeout_secs cfg) 1)) env1
              (map (target_addr ?w) ts) ! j)
        \<and> hw_gauge w' (target_addr ?w (ts ! j)) = Some (if snd (view w' (ts ! j)) then 1 else 0)"
      by (rule Cons.IH [OF vts dw r j])
    then show ?thesis
      using check_upstream_other [OF vt ne(2,1)] check_upstream_shape(2) [OF vt ne(2)] c addrs
      by (simp add: Suc)
  qed
qed simp

section \<open>Properties\<close>

text \<open>C15. The health flag is an exact hysteresis: after every probe result, an upstream that was up is
  down exactly when the last \<open>unhealthy_threshold\<close> results (at least one) were all failures, and one
  that was down is up exactly when the last \<open>healthy_threshold\<close> results were all successes.\<close>

theorem health_hysteresis_exact:
  assumes "length bs + 1 < 2 ^ 32"
  shows "snd (observe_all cfg (bs @ [b])) =
     (if snd (observe_all cfg bs) then \<not> (unat (max (unhealthy_threshold cfg) 1) \<le> trailing False (bs @ [b]))
      else unat (max (healthy_threshold cfg) 1) \<le> trailing True (bs @ [b]))"
  by (rule observe_all_flag [OF assms])

text \<open>Health converges: whatever happened before, \<open>unhealthy_threshold\<close> failures in a row take an
  upstream out of rotation and \<open>healthy_threshold\<close> successes in a row bring it back.\<close>

theorem health_converges:
  assumes "length bs + n < 2 ^ 32"
  shows "(unat (max (unhealthy_threshold cfg) 1) \<le> n \<longrightarrow> \<not> snd (observe_all cfg (bs @ replicate n False)))
       \<and> (unat (max (healthy_threshold cfg) 1) \<le> n \<longrightarrow> snd (observe_all cfg (bs @ replicate n True)))"
proof -
  have step: "snd (observe_all cfg (bs @ replicate n b)) = b" if "0 < n"
    and "unat (max (if b then healthy_threshold cfg else unhealthy_threshold cfg) 1) \<le> n" for b
  proof -
    obtain m where m: "n = Suc m" using \<open>0 < n\<close> by (cases n) auto
    define xs where "xs = bs @ replicate m b"
    have eq: "bs @ replicate n b = xs @ [b]" by (simp add: m xs_def replicate_append_same)
    have "n \<le> trailing b (xs @ [b])" unfolding eq [symmetric] by (rule trailing_replicate)
    moreover have "length xs + 1 < 2 ^ 32" using assms by (simp add: xs_def m)
    ultimately show ?thesis
      unfolding eq using that(2) observe_all_flag [of xs cfg b]
        unat_max_one_pos [of "unhealthy_threshold cfg"] unat_max_one_pos [of "healthy_threshold cfg"]
      by (cases b) (simp_all del: observe_all_snoc)
  qed
  have "0 < n" if "unat (max w 1) \<le> n" for w :: u32
    using that unat_max_one_pos [of w] by linarith
  then show ?thesis using step [of False] step [of True] by auto
qed


text \<open>The thresholds are kept by address: an upstream that two pools share is counted twice in a round,
  so that two failed rounds take it down although the threshold is three.\<close>

definition shared_example :: health_world where
  "shared_example =
     \<lparr>hw_state = Map.empty,
      hw_store = [from_upstreams [\<lparr>address = ''http://a'', weight = 1\<rparr>] RoundRobin,
                  from_upstreams [\<lparr>address = ''http://a'', weight = 1\<rparr>] RoundRobin],
      hw_gauge = Map.empty\<rparr>"

definition failing_round :: "health_world \<Rightarrow> health_world" where
  "failing_round w = snd (health_round (\<lambda>_. None) (\<lambda>env _ _. (None, env)) default_health_check [0, 1] () w)"

theorem shared_address_counted_twice:
  "unhealthy_threshold default_health_check = 3
   \<and> map (\<lambda>lb. map healthy (lb_upstreams lb)) (hw_store (failing_round (failing_round shared_example))) = [[False], [False]]"
  by (simp add: failing_round_def shared_example_def health_round_def targets_def check_one_def check_upstream_def
      observe_def initial_entry_def update_upstream_def set_healthy_def from_upstreams_def upstream_runtime_new_def
      default_health_check_def Let_def)

section \<open>Witnesses\<close>

theorem health_hysteresis_exact_witness:
  "snd (observe_all default_health_check ([False, False] @ [False])) =
     (if snd (observe_all default_health_check [False, False])
      then \<not> (unat (max (unhealthy_threshold default_health_check) 1) \<le> trailing False ([False, False] @ [False]))
      else unat (max (healthy_threshold default_health_check) 1) \<le> trailing True ([False, False] @ [False]))"
  by (rule health_hysteresis_exact) simp

theorem health_converges_witness:
  "\<not> snd (observe_all default_health_check ([True] @ replicate 3 False))
   \<and> snd (observe_all default_health_check ([True] @ replicate 3 True))"
proof -
  have "unat (max (3 :: u32) 1) \<le> 3" "unat (max (2 :: u32) 1) \<le> 3" by code_simp+
  then show ?thesis
    using health_converges [of "[True]" 3 default_health_check] by (simp add: default_health_check_def)
qed

text \<open>A world with one pool of two upstreams, and a client for which only one of them answers.\<close>

definition health_example :: health_world where
  "health_example =
     \<lparr>hw_state = Map.empty,
      hw_store = [from_upstreams [\<lparr>address = ''http://a'', weight = 1\<rparr>, \<lparr>address = ''http://b'', weight = 1\<rparr>] RoundRobin],
      hw_gauge = Map.empty\<rparr>"

definition probe_example :: "unit \<Rightarrow> string \<Rightarrow> duration \<Rightarrow> nat option \<times> unit" where
  "probe_example env url timeout = (if url = ''http://a/'' then Some 200 else None, ())"

lemma targets_example: "targets [0] (hw_store health_example) = [(0, 0), (0, 1)]"
  by (simp add: targets_def health_example_def from_upstreams_def upt_rec)


end
