(* ===== verification/Task.thy ===== *)
theory Task
  imports Handler
begin

text \<open>
  The request handler of \<open>src/proxy/handler.rs\<close> as a task that can be suspended: the code between two
  awaits is one operation on the shared state, and what the task waits for is a value. The operations are
  those of \<open>Handler\<close> cut at the awaits; driven by the same environment they compute the same answer, and
  interleaved with other tasks they are the requests of the server.
\<close>

section \<open>Definitions\<close>

text \<open>
  Where a request waits: for its body; for the upstream \<open>i\<close> of attempt \<open>attempt\<close> with \<open>n\<close> more attempts
  left; for the upstream of an upgrade. Or it has its answer.
\<close>

datatype ('h, 'b) rq_state =
    AwaitBody lb_ref "string option"
  | AwaitAttempt lb_ref "string option" string nat nat "string list" nat "('h, string) request"
  | AwaitUpgrade lb_ref nat string "('h, string) request"
  | Answered "('h, 'b) proxy_response"

definition answered ::
  "(('h, 'b) proxy_response \<times> 'env world) option \<Rightarrow> (('h, 'b) rq_state \<times> 'env world) option" where
  "answered = map_option (map_prod Answered id)"

text \<open>The updates of the counters before and after an attempt.\<close>

definition enter_upstream :: "string \<Rightarrow> lb_ref \<Rightarrow> nat \<Rightarrow> 'env world \<Rightarrow> 'env world" where
  "enter_upstream addr l i w = upd_metrics (gauge_add addr 1) (upd_upstream l i inc_connections w)"

definition leave_upstream :: "string \<Rightarrow> lb_ref \<Rightarrow> nat \<Rightarrow> 'env world \<Rightarrow> 'env world" where
  "leave_upstream addr l i w = upd_metrics (gauge_add addr (- 1)) (upd_upstream l i dec_connections w)"

text \<open>
  The retry loop up to the next await. An attempt whose request cannot be built fails without waiting.
\<close>

fun next_attempt ::
  "'h http_lib \<Rightarrow> proxy_context \<Rightarrow> ('h, 'b) request \<Rightarrow> socket_addr \<Rightarrow> lb_ref \<Rightarrow> string option \<Rightarrow> string
     \<Rightarrow> nat \<Rightarrow> nat \<Rightarrow> string list \<Rightarrow> 'env world \<Rightarrow> (('h, 'b) rq_state \<times> 'env world) option" where
  "next_attempt L ctx rq remote l sticky_val body attempt 0 tried w =
     answered (reject L (rq_method rq) 502 ''Bad Gateway'' w)"
| "next_attempt L ctx rq remote l sticky_val body attempt (Suc n) tried w =
     (case choose_upstream l sticky_val attempt tried w of
        (None, w) \<Rightarrow> answered (reject L (rq_method rq) 502 ''Bad Gateway'' w)
      | (Some i, w) \<Rightarrow>
          (let addr = upstream_addr l i w;
               tried = tried @ [addr];
               w = enter_upstream addr l i w
           in case build_request L (make_attempt ctx rq remote addr body False) of
                Inl e \<Rightarrow>
                  next_attempt L ctx rq remote l sticky_val body (Suc attempt) n tried (leave_upstream addr l i w)
              | Inr proxy_req \<Rightarrow> Some (AwaitAttempt l sticky_val body attempt n tried i proxy_req, w)))"

text \<open>After the answer of an upstream, an error or the timeout.\<close>

definition resume_attempt ::
  "'h http_lib \<Rightarrow> timer_lib \<Rightarrow> proxy_context \<Rightarrow> ('h, 'b) request \<Rightarrow> socket_addr \<Rightarrow> instant \<Rightarrow> lb_ref
     \<Rightarrow> string option \<Rightarrow> string \<Rightarrow> nat \<Rightarrow> nat \<Rightarrow> string list \<Rightarrow> nat \<Rightarrow> (string + ('h, 'b) response) option
     \<Rightarrow> 'env world \<Rightarrow> (('h, 'b) rq_state \<times> 'env world) option" where
  "resume_attempt L T ctx rq remote start l sticky_val body attempt n tried i result w =
     (let addr = last tried;
          w = leave_upstream addr l i w
      in case result of
           Some (Inr r) \<Rightarrow>
             (let r = build_response L T (w_clock w) (make_attempt ctx rq remote addr body False) r
              in Some (Answered (r\<lparr>rs_headers := finish_headers L ctx addr (rs_headers r)\<rparr>),
                       record_response (rq_method rq) (rs_status r) addr start w))
         | _ \<Rightarrow> next_attempt L ctx rq remote l sticky_val body (Suc attempt) n tried w)"

text \<open>After the body was read or refused.\<close>

definition resume_body ::
  "'h http_lib \<Rightarrow> proxy_context \<Rightarrow> ('h, 'b) request \<Rightarrow> socket_addr \<Rightarrow> lb_ref \<Rightarrow> string option
     \<Rightarrow> body_limit_error + string \<Rightarrow> 'env world \<Rightarrow> (('h, 'b) rq_state \<times> 'env world) option" where
  "resume_body L ctx rq remote l sticky_val collected w =
     (let method = rq_method rq
      in case collected of
           Inl TooLarge \<Rightarrow> answered (reject L method 413 ''Payload Too Large'' w)
         | Inl IdleTimeout \<Rightarrow> answered (reject L method 408 ''Request Body Idle Timeout'' w)
         | Inl (Other e) \<Rightarrow> answered (map_option (\<lambda>r. (r, w)) (error_response L 400 ''Bad Request''))
         | Inr body \<Rightarrow>
             next_attempt L ctx rq remote l sticky_val body 0 (unat (max_attempts ctx method body)) [] w)"

definition begin_upgrade ::
  "'h http_lib \<Rightarrow> proxy_context \<Rightarrow> ('h, 'b) request \<Rightarrow> socket_addr \<Rightarrow> lb_ref \<Rightarrow> 'env world
     \<Rightarrow> (('h, 'b) rq_state \<times> 'env world) option" where
  "begin_upgrade L ctx rq remote l w =
     (case with_lb l select w of
        (None, w) \<Rightarrow> answered (map_option (\<lambda>r. (r, w)) (error_response L 503 ''No healthy upstreams''))
      | (Some i, w) \<Rightarrow>
          (let addr = upstream_addr l i w;
               w = upd_upstream l i inc_connections w
           in case build_request L (make_attempt ctx rq remote addr [] True) of
                Inl e \<Rightarrow>
                  (let w = upd_upstream l i dec_connections w
                   in answered (map_option (\<lambda>r. (r, w)) (error_response L 502 ''Bad Gateway'')))
              | Inr proxy_req \<Rightarrow> Some (AwaitUpgrade l i addr proxy_req, w)))"

definition resume_upgrade ::
  "'h http_lib \<Rightarrow> timer_lib \<Rightarrow> proxy_context \<Rightarrow> ('h, 'b) request \<Rightarrow> socket_addr \<Rightarrow> instant \<Rightarrow> lb_ref \<Rightarrow> nat
     \<Rightarrow> string \<Rightarrow> (string + ('h, 'b) response) option \<Rightarrow> 'env world \<Rightarrow> (('h, 'b) rq_state \<times> 'env world) option" where
  "resume_upgrade L T ctx rq remote start l i addr result w =
     (let w = upd_upstream l i dec_connections w
      in case result of
           Some (Inr r) \<Rightarrow>
             (let r = build_response L T (w_clock w) (make_attempt ctx rq remote addr [] True) r;
                  w = record_response (rq_method rq) (rs_status r) addr start w;
                  w = (if rs_status r = 101 then w\<lparr>w_tunnels := w_tunnels w @ [addr]\<rparr> else w)
              in Some (Answered r, w))
         | _ \<Rightarrow> answered (map_option (\<lambda>r. (r, w)) (error_response L 502 ''Bad Gateway'')))"

text \<open>From the start of the handler to its first await; with a permit in hand, and before.\<close>

definition begin_admitted ::
  "'h http_lib \<Rightarrow> proxy_context \<Rightarrow> ('h, 'b) request \<Rightarrow> socket_addr \<Rightarrow> 'env world
     \<Rightarrow> (('h, 'b) rq_state \<times> 'env world) option" where
  "begin_admitted L ctx rq remote w =
     (let method = rq_method rq; ip = sa_ip remote;
          routed = (\<lambda>w. case resolve (ctx_router ctx) (rq_path rq) of
             None \<Rightarrow> answered (reject L method 404 ''No route matched'' w)
           | Some l \<Rightarrow>
               (let sticky_val = Option.bind (ctx_sticky ctx) (\<lambda>s. extract_cookie L (rq_headers rq) (cookie_name s))
                in if is_upgrade_request L rq then begin_upgrade L ctx rq remote l w
                   else Some (AwaitBody l sticky_val, w)))
      in if (case ctx_acl ctx of Some a \<Rightarrow> \<not> is_allowed a ip | None \<Rightarrow> False)
         then answered (reject L method 403 ''Forbidden'' w)
         else (case ctx_rate_limiter ctx of
                 None \<Rightarrow> routed w
               | Some k \<Rightarrow>
                   (case check_limiter k ip w of
                      None \<Rightarrow> None
                    | Some (ok, w) \<Rightarrow>
                        if \<not> ok
                        then answered (reject L method 429 ''Too Many Requests''
                               (upd_metrics (\<lambda>m. m\<lparr>rate_limit_rejects := rate_limit_rejects m + 1\<rparr>) w))
                        else routed (upd_metrics (\<lambda>m. m\<lparr>rate_limit_allows := rate_limit_allows m + 1\<rparr>) w))))"

text \<open>The result says which permit the task holds.\<close>

definition begin_request ::
  "'h http_lib \<Rightarrow> proxy_context \<Rightarrow> ('h, 'b) request \<Rightarrow> socket_addr \<Rightarrow> 'env world
     \<Rightarrow> (nat option \<times> ('h, 'b) rq_state \<times> 'env world) option" where
  "begin_request L ctx rq remote w =
     (case ctx_request_limit ctx of
        None \<Rightarrow> map_option (Pair None) (begin_admitted L ctx rq remote w)
      | Some k \<Rightarrow>
          if w_permits w ! k = 0
          then map_option (Pair None)
                 (answered (reject L (rq_method rq) 503 ''Too Many Concurrent Requests'' w))
          else map_option (Pair (Some k))
                 (begin_admitted L ctx rq remote (w\<lparr>w_permits := (w_permits w)[k := w_permits w ! k - 1]\<rparr>)))"

text \<open>A permit is returned when its guard is dropped: with the answer, or when the task is dropped.\<close>

definition drop_permit :: "nat option \<Rightarrow> 'env world \<Rightarrow> 'env world" where
  "drop_permit p w = (case p of None \<Rightarrow> w | Some k \<Rightarrow> release_permit k w)"

text \<open>A request on its way, and the upstream it is waiting for.\<close>

record ('h, 'b) rq_task =
  tk_request :: "('h, 'b) request"
  tk_start :: instant
  tk_permit :: "nat option"
  tk_state :: "('h, 'b) rq_state"

fun at_upstream :: "('h, 'b) rq_state \<Rightarrow> (lb_ref \<times> nat) option" where
  "at_upstream (AwaitAttempt l sticky_val body attempt n tried i rq) = Some (l, i)"
| "at_upstream (AwaitUpgrade l i addr rq) = Some (l, i)"
| "at_upstream _ = None"

text \<open>
  A task goes on with whatever its await returns: the outcome of reading the body under its limits, with
  any behaviour of \<open>collect\<close>, or the answer of an upstream, an error or the timeout.
\<close>

inductive task_step ::
  "('h, 'b, 'e, 'env) externals \<Rightarrow> proxy_context \<Rightarrow> socket_addr \<Rightarrow> ('h, 'b) rq_task \<Rightarrow> 'env world
     \<Rightarrow> ('h, 'b) rq_task \<Rightarrow> 'env world \<Rightarrow> bool" for X ctx remote
  where
    body: "task_step X ctx remote tk w (tk\<lparr>tk_state := st\<rparr>) w'"
      if "tk_state tk = AwaitBody l sv"
         "collect_limited (x_timer X) C (x_body X) (x_display X) now (rq_body (tk_request tk))
            (ctx_max_body_bytes ctx) (ctx_idle_timeout ctx) = Some collected"
         "resume_body (x_http X) ctx (tk_request tk) remote l sv collected w = Some (st, w')"
  | attempt: "task_step X ctx remote tk w (tk\<lparr>tk_state := st\<rparr>) w'"
      if "tk_state tk = AwaitAttempt l sv body attempt n tried i proxy_req"
         "resume_attempt (x_http X) (x_timer X) ctx (tk_request tk) remote (tk_start tk) l sv body attempt n tried i
            result w = Some (st, w')"
  | upgrade: "task_step X ctx remote tk w (tk\<lparr>tk_state := st\<rparr>) w'"
      if "tk_state tk = AwaitUpgrade l i addr proxy_req"
         "resume_upgrade (x_http X) (x_timer X) ctx (tk_request tk) remote (tk_start tk) l i addr result w
            = Some (st, w')"

section \<open>The number of awaits\<close>

fun awaits_left :: "('h, 'b) rq_state \<Rightarrow> nat" where
  "awaits_left (AwaitBody l sticky_val) = 2 ^ 32"
| "awaits_left (AwaitAttempt l sticky_val body attempt n tried i rq) = Suc n"
| "awaits_left (AwaitUpgrade l i addr rq) = 1"
| "awaits_left (Answered r) = 0"

lemma answered_Some [simp]: "answered x = Some (st, w) \<longleftrightarrow> (\<exists>r. x = Some (r, w) \<and> st = Answered r)"
  by (cases x) (auto simp: answered_def map_prod_def split: prod.splits)

lemma answered_None [simp]: "answered x = None \<longleftrightarrow> x = None"
  by (simp add: answered_def)

lemma next_attempt_awaits:
  "next_attempt L ctx rq remote l sv body attempt n tried w = Some (st, w') \<Longrightarrow> awaits_left st \<le> n"
proof (induction n arbitrary: attempt tried w)
  case (Suc n)
  then show ?case
    by (auto simp: Let_def split: prod.splits option.splits sum.splits intro: le_SucI)
qed auto

lemma resume_attempt_awaits:
  "resume_attempt L T ctx rq remote start l sv body attempt n tried i result w = Some (st, w') \<Longrightarrow> awaits_left st \<le> n"
  by (auto simp: resume_attempt_def Let_def split: option.splits sum.splits dest: next_attempt_awaits)

lemma resume_upgrade_awaits:
  "resume_upgrade L T ctx rq remote start l i addr result w = Some (st, w') \<Longrightarrow> awaits_left st = 0"
  by (auto simp: resume_upgrade_def Let_def split: option.splits sum.splits)

lemma resume_body_awaits:
  assumes "resume_body L ctx rq remote l sv collected w = Some (st, w')" shows "awaits_left st < 2 ^ 32"
proof -
  have "unat (max_attempts ctx m body) < 2 ^ 32" for m body
    using unat_bound [of "max_attempts ctx m body"] by simp
  then show ?thesis
    using assms by (auto simp: resume_body_def Let_def split: sum.splits body_limit_error.splits
        dest!: next_attempt_awaits intro: le_less_trans)
qed

section \<open>What a task leaves alone\<close>

text \<open>
  After its admission a task changes metrics, tunnels and the store of balancers. A relation between worlds
  that allows these changes holds from any await to the next.
\<close>

locale task_frame =
  fixes R :: "'env world \<Rightarrow> 'env world \<Rightarrow> bool"
  assumes same: "R w w"
    and chain: "R w1 w2 \<Longrightarrow> R w2 w3 \<Longrightarrow> R w1 w3"
    and metrics: "R w (upd_metrics f w)"
    and tunnels: "R w (w\<lparr>w_tunnels := ts\<rparr>)"
    and store: "R w (w\<lparr>w_store := lbs\<rparr>)"
begin

lemma upstream: "R w (upd_upstream l i f w)"
  unfolding upd_upstream_def by (rule store)

lemma enter: "R w (enter_upstream addr l i w)" and leave: "R w (leave_upstream addr l i w)"
  unfolding enter_upstream_def leave_upstream_def by (rule chain [OF upstream metrics])+

lemma recorded: "R w (record_response m s a t w)"
  unfolding record_response_def Let_def by (rule chain [OF metrics metrics])

lemma balancer: "with_lb l f w = (c, w') \<Longrightarrow> R w w'"
  by (auto simp: with_lb_def store split: prod.splits)

lemma chosen: "choose_upstream l v k tried w = (c, w') \<Longrightarrow> R w w'"
  by (auto simp: choose_upstream_def split: if_splits dest: balancer intro: chain [OF metrics])

lemma rejected: "reject L m s msg w = Some (r, w') \<Longrightarrow> R w w'"
  by (auto simp: reject_def metrics)

lemma attempts:
  "next_attempt L ctx rq remote l sv body attempt n tried w = Some (st, w') \<Longrightarrow> R w w'"
proof (induction n arbitrary: attempt tried w)
  case 0
  then show ?case by (auto dest: rejected)
next
  case (Suc n)
  obtain choice w1 where c: "choose_upstream l sv attempt tried w = (choice, w1)"
    by (cases "choose_upstream l sv attempt tried w")
  have "R w1 w'"
  proof (cases choice)
    case None
    with Suc.prems c show ?thesis by (auto dest: rejected)
  next
    case (Some i)
    let ?addr = "upstream_addr l i w1"
    show ?thesis
    proof (cases "build_request L (make_attempt ctx rq remote ?addr body False)")
      case (Inl e)
      with Suc.prems c Some have "next_attempt L ctx rq remote l sv body (Suc attempt) n (tried @ [?addr])
          (leave_upstream ?addr l i (enter_upstream ?addr l i w1)) = Some (st, w')"
        by (simp add: Let_def)
      from chain [OF chain [OF enter leave] Suc.IH [OF this]] show ?thesis .
    next
      case (Inr proxy_req)
      with Suc.prems c Some show ?thesis by (auto simp: Let_def intro: enter)
    qed
  qed
  with chosen [OF c] show ?case by (rule chain)
qed

lemma upgraded: "begin_upgrade L ctx rq remote l w = Some (st, w') \<Longrightarrow> R w w'"
  by (auto simp: begin_upgrade_def Let_def split: prod.splits option.splits sum.splits
      dest!: balancer intro: chain [OF _ upstream] chain [OF _ chain [OF upstream upstream]])

lemma resumed:
  assumes "task_step X ctx remote tk w tk' w'"
  shows "R w w'"
  using assms
proof (cases rule: task_step.cases)
  case (body l sv C now collected st)
  then show ?thesis
    by (auto simp: resume_body_def Let_def same split: sum.splits body_limit_error.splits dest!: rejected attempts)
next
  case (attempt l sv body attempt n tried i proxy_req result st)
  then show ?thesis
    by (auto simp: resume_attempt_def Let_def split: option.splits sum.splits dest!: attempts
        intro: chain [OF leave] recorded)
next
  case (upgrade l i addr proxy_req result st)
  then show ?thesis
    by (auto simp: resume_upgrade_def Let_def split: option.splits sum.splits if_splits
        intro: upstream chain [OF upstream recorded] chain [OF chain [OF upstream recorded] tunnels])
qed

end

section \<open>Driving a task\<close>

text \<open>
  A task with the environment of the handler: every await is answered by it at once, and leaves the world
  that it says.
\<close>

function drive ::
  "('h, 'b, 'e, 'env) externals \<Rightarrow> proxy_context \<Rightarrow> ('h, 'b) request \<Rightarrow> socket_addr \<Rightarrow> instant
     \<Rightarrow> ('h, 'b) rq_state \<Rightarrow> 'env world \<Rightarrow> (('h, 'b) proxy_response \<times> 'env world) option" where
  "drive X ctx rq remote start (Answered r) w = Some (r, w)"
| "drive X ctx rq remote start (AwaitBody l sticky_val) w =
     (case collect_limited (x_timer X) (x_collect X w) (x_body X) (x_display X) (w_clock w) (rq_body rq)
             (ctx_max_body_bytes ctx) (ctx_idle_timeout ctx) of
        None \<Rightarrow> None
      | Some collected \<Rightarrow>
          (case resume_body (x_http X) ctx rq remote l sticky_val collected (x_collect_world X w) of
             None \<Rightarrow> None
           | Some (st, w) \<Rightarrow> drive X ctx rq remote start st w))"
| "drive X ctx rq remote start (AwaitAttempt l sticky_val body attempt n tried i proxy_req) w =
     (case x_request X proxy_req (ctx_request_timeout ctx) w of
        (result, w) \<Rightarrow>
          (case resume_attempt (x_http X) (x_timer X) ctx rq remote start l sticky_val body attempt n tried i result w of
             None \<Rightarrow> None
           | Some (st, w) \<Rightarrow> drive X ctx rq remote start st w))"
| "drive X ctx rq remote start (AwaitUpgrade l i addr proxy_req) w =
     (case x_request X proxy_req (ctx_request_timeout ctx) w of
        (result, w) \<Rightarrow>
          (case resume_upgrade (x_http X) (x_timer X) ctx rq remote start l i addr result w of
             None \<Rightarrow> None
           | Some (st, w) \<Rightarrow> drive X ctx rq remote start st w))"
  by pat_completeness auto
termination
  by (relation "measure (\<lambda>(X, ctx, rq, remote, start, st, w). awaits_left st)")
    (auto dest!: resume_attempt_awaits resume_upgrade_awaits resume_body_awaits)

definition drive_from ::
  "('h, 'b, 'e, 'env) externals \<Rightarrow> proxy_context \<Rightarrow> ('h, 'b) request \<Rightarrow> socket_addr \<Rightarrow> instant
     \<Rightarrow> (('h, 'b) rq_state \<times> 'env world) option \<Rightarrow> (('h, 'b) proxy_response \<times> 'env world) option" where
  "drive_from X ctx rq remote start x = Option.bind x (\<lambda>(st, w). drive X ctx rq remote start st w)"

lemma drive_from_simps [simp]:
  "drive_from X ctx rq remote start None = None"
  "drive_from X ctx rq remote start (Some (st, w)) = drive X ctx rq remote start st w"
  "drive_from X ctx rq remote start (answered y) = y"
  by (cases y; auto simp: drive_from_def answered_def)+

lemma drive_case [simp]:
  "(case x of None \<Rightarrow> None | Some (st, w) \<Rightarrow> drive X ctx rq remote start st w) = drive_from X ctx rq remote start x"
  by (cases x) auto

text \<open>The retry loop, cut at its awaits, is the retry loop.\<close>

lemma drive_next_attempt:
  "drive_from X ctx rq remote start (next_attempt (x_http X) ctx rq remote l sv body attempt n tried w) =
     (case proxy_attempts X ctx rq remote l sv body start attempt n tried w of
        (Some r, tried, w) \<Rightarrow> Some (r, w)
      | (None, tried, w) \<Rightarrow> reject (x_http X) (rq_method rq) 502 ''Bad Gateway'' w)"
proof (induction n arbitrary: attempt tried w)
  case (Suc n)
  obtain choice w1 where c: "choose_upstream l sv attempt tried w = (choice, w1)"
    by (cases "choose_upstream l sv attempt tried w")
  show ?case
  proof (cases choice)
    case None
    with c show ?thesis by simp
  next
    case (Some i)
    let ?addr = "upstream_addr l i w1"
    let ?a = "make_attempt ctx rq remote ?addr body False"
    have addr: "pa_address ?a = ?addr" "pa_request_timeout ?a = ctx_request_timeout ctx" by (simp_all add: make_attempt_def)
    show ?thesis
    proof (cases "build_request (x_http X) ?a")
      case (Inl e)
      with c Some Suc.IH addr show ?thesis
        by (simp add: Let_def counted_attempt_def attempt_proxy_def enter_upstream_def leave_upstream_def)
    next
      case (Inr proxy_req)
      obtain result w2 where r: "x_request X proxy_req (ctx_request_timeout ctx) (enter_upstream ?addr l i w1) = (result, w2)"
        by (cases "x_request X proxy_req (ctx_request_timeout ctx) (enter_upstream ?addr l i w1)")
      have clock: "w_clock (leave_upstream ?addr l i w2) = w_clock w2"
        by (simp add: leave_upstream_def upd_metrics_def upd_upstream_def)
      show ?thesis
      proof (cases "\<exists>x. result = Some (Inr x)")
        case True
        with c Some Inr r addr clock show ?thesis
          by (auto simp: Let_def counted_attempt_def attempt_proxy_def resume_attempt_def
              simp flip: enter_upstream_def leave_upstream_def)
      next
        case False
        then consider "result = None" | e where "result = Some (Inl e)" by (metis option.exhaust sum.exhaust)
        then show ?thesis
          by cases (use c Some Inr r addr Suc.IH in \<open>simp_all add: Let_def counted_attempt_def attempt_proxy_def
              resume_attempt_def flip: enter_upstream_def leave_upstream_def\<close>)
      qed
    qed
  qed
qed simp

lemma drive_begin_upgrade:
  "drive_from X ctx rq remote start (begin_upgrade (x_http X) ctx rq remote l w) = proxy_upgrade X rq l ctx remote start w"
proof -
  obtain choice w1 where c: "with_lb l select w = (choice, w1)" by (cases "with_lb l select w")
  show ?thesis
  proof (cases choice)
    case None
    with c show ?thesis by (simp add: begin_upgrade_def proxy_upgrade_def)
  next
    case (Some i)
    let ?addr = "upstream_addr l i w1"
    let ?a = "make_attempt ctx rq remote ?addr [] True"
    let ?w = "upd_upstream l i inc_connections w1"
    have timeout: "pa_request_timeout ?a = ctx_request_timeout ctx" by (simp add: make_attempt_def)
    show ?thesis
    proof (cases "build_request (x_http X) ?a")
      case (Inl e)
      with c Some show ?thesis
        by (simp add: begin_upgrade_def proxy_upgrade_def attempt_proxy_def Let_def)
    next
      case (Inr proxy_req)
      obtain result w2 where r: "x_request X proxy_req (ctx_request_timeout ctx) ?w = (result, w2)"
        by (cases "x_request X proxy_req (ctx_request_timeout ctx) ?w")
      have clock: "w_clock (upd_upstream l i dec_connections w2) = w_clock w2"
        by (simp add: upd_upstream_def)
      consider "result = None" | e where "result = Some (Inl e)" | x where "result = Some (Inr x)"
        by (metis option.exhaust sum.exhaust)
      then show ?thesis
        by cases (use c Some Inr r timeout clock in \<open>simp_all add: begin_upgrade_def proxy_upgrade_def attempt_proxy_def
            resume_upgrade_def Let_def\<close>)
    qed
  qed
qed

lemma drive_await_body:
  "drive X ctx rq remote start (AwaitBody l sv) w = proxy_forward X rq ctx remote start l sv w"
  by (auto simp: proxy_forward_def resume_body_def drive_next_attempt Let_def
      split: option.split sum.split body_limit_error.split)

lemma drive_begin_admitted:
  fixes X :: "('h, 'b, 'e, 'env) externals"
  shows "drive_from X ctx rq remote start (begin_admitted (x_http X) ctx rq remote w) = proxy_admitted X rq ctx remote start w"
proof -
  define sv where "sv = Option.bind (ctx_sticky ctx) (\<lambda>s. extract_cookie (x_http X) (rq_headers rq) (cookie_name s))"
  define task where "task = (\<lambda>w :: 'env world. case resolve (ctx_router ctx) (rq_path rq) of
       None \<Rightarrow> answered (reject (x_http X) (rq_method rq) 404 ''No route matched'' w)
     | Some l \<Rightarrow> if is_upgrade_request (x_http X) rq then begin_upgrade (x_http X) ctx rq remote l w
                else Some (AwaitBody l sv, w))"
  define handler where "handler = (\<lambda>w. case resolve (ctx_router ctx) (rq_path rq) of
       None \<Rightarrow> reject (x_http X) (rq_method rq) 404 ''No route matched'' w
     | Some l \<Rightarrow> if is_upgrade_request (x_http X) rq then proxy_upgrade X rq l ctx remote start w
                else proxy_forward X rq ctx remote start l sv w)"
  have routed: "drive_from X ctx rq remote start (task w) = handler w" for w
    by (simp add: task_def handler_def drive_begin_upgrade drive_await_body del: drive.simps split: option.split)
  have "begin_admitted (x_http X) ctx rq remote w =
      (if (case ctx_acl ctx of Some a \<Rightarrow> \<not> is_allowed a (sa_ip remote) | None \<Rightarrow> False)
       then answered (reject (x_http X) (rq_method rq) 403 ''Forbidden'' w)
       else (case ctx_rate_limiter ctx of
               None \<Rightarrow> task w
             | Some k \<Rightarrow>
                 (case check_limiter k (sa_ip remote) w of
                    None \<Rightarrow> None
                  | Some (ok, w) \<Rightarrow>
                      if \<not> ok
                      then answered (reject (x_http X) (rq_method rq) 429 ''Too Many Requests''
                             (upd_metrics (\<lambda>m. m\<lparr>rate_limit_rejects := rate_limit_rejects m + 1\<rparr>) w))
                      else task (upd_metrics (\<lambda>m. m\<lparr>rate_limit_allows := rate_limit_allows m + 1\<rparr>) w))))"
    unfolding begin_admitted_def task_def sv_def Let_def by (rule refl)
  moreover have "proxy_admitted X rq ctx remote start w =
      (if (case ctx_acl ctx of Some a \<Rightarrow> \<not> is_allowed a (sa_ip remote) | None \<Rightarrow> False)
       then reject (x_http X) (rq_method rq) 403 ''Forbidden'' w
       else (case ctx_rate_limiter ctx of
               None \<Rightarrow> handler w
             | Some k \<Rightarrow>
                 (case check_limiter k (sa_ip remote) w of
                    None \<Rightarrow> None
                  | Some (ok, w) \<Rightarrow>
                      if \<not> ok
                      then reject (x_http X) (rq_method rq) 429 ''Too Many Requests''
                             (upd_metrics (\<lambda>m. m\<lparr>rate_limit_rejects := rate_limit_rejects m + 1\<rparr>) w)
                      else handler (upd_metrics (\<lambda>m. m\<lparr>rate_limit_allows := rate_limit_allows m + 1\<rparr>) w))))"
    unfolding proxy_admitted_def handler_def sv_def Let_def by (rule refl)
  ultimately show ?thesis by (simp add: routed split: option.split)
qed

lemma drop_no_permit: "map_option (\<lambda>(r, w). (r, drop_permit None w)) y = y"
  by (cases y) (auto simp: drop_permit_def)

lemma proxy_request_tasks:
  "proxy_request X rq ctx remote w =
     (case begin_request (x_http X) ctx rq remote w of
        None \<Rightarrow> None
      | Some (p, st, w') \<Rightarrow>
          map_option (\<lambda>(r, w). (r, drop_permit p w)) (drive X ctx rq remote (w_clock w) st w'))"
proof -
  have split: "(case map_option (Pair p) x of None \<Rightarrow> None | Some (p, st, w') \<Rightarrow>
        map_option (\<lambda>(r, w). (r, drop_permit p w)) (drive X ctx rq remote start st w'))
      = map_option (\<lambda>(r, w). (r, drop_permit p w)) (drive_from X ctx rq remote start x)" for p x start
    by (cases x) auto
  show ?thesis
  proof (cases "ctx_request_limit ctx")
    case None
    show ?thesis
      by (simp only: proxy_request_def begin_request_def Let_def None option.case split drive_begin_admitted drop_no_permit)
  next
    case (Some k)
    show ?thesis
    proof (cases "w_permits w ! k = 0")
      case True
      show ?thesis
        by (simp only: proxy_request_def begin_request_def Let_def Some True option.case split drive_from_simps
            drop_no_permit if_True simp_thms)
    next
      case False
      then show ?thesis
        by (simp only: proxy_request_def begin_request_def Let_def Some option.case split drive_begin_admitted if_False)
          (simp add: drop_permit_def)
    qed
  qed
qed

section \<open>Answers without an upstream\<close>

text \<open>A task that is answered before it waits is answered by the proxy itself.\<close>

lemma reject_full: "reject L m s msg w = Some (r, w') \<Longrightarrow> \<exists>t. rs_body r = Full t"
  by (auto simp: reject_def error_response_def)

lemma error_response_full: "error_response L s msg = Some r \<Longrightarrow> \<exists>t. rs_body r = Full t"
  by (auto simp: error_response_def)

lemma begin_admitted_answer:
  "begin_admitted L ctx rq remote w = Some (Answered r, w') \<Longrightarrow> \<exists>t. rs_body r = Full t"
  by (auto simp: begin_admitted_def begin_upgrade_def Let_def split: if_splits option.splits sum.splits prod.splits
      dest: reject_full error_response_full)

lemma begin_request_answer:
  "begin_request L ctx rq remote w = Some (p, Answered r, w') \<Longrightarrow> \<exists>t. rs_body r = Full t"
  by (auto simp: begin_request_def split: option.splits if_splits dest: begin_admitted_answer reject_full)

section \<open>Properties\<close>


end
