(* ===== verification/Steps.thy ===== *)
theory Steps
  imports Main
begin

text \<open>
  Labelled step relations and their finite executions, shared by the models that interleave tasks. The
  locale \<open>step_system\<close> relates the executions from a set of initial states to a step relation; invariants,
  invariants that speak of the events so far, and bounds on how often an event can occur are proved there
  once. Lists of events have the newest event first.
\<close>

inductive steps :: "('s \<Rightarrow> 'e \<Rightarrow> 's \<Rightarrow> bool) \<Rightarrow> 's \<Rightarrow> 'e list \<Rightarrow> 's \<Rightarrow> bool" for step where
  none: "steps step s [] s"
| more: "steps step s es s' \<Longrightarrow> step s' e s'' \<Longrightarrow> steps step s (e # es) s''"

inductive_simps steps_Nil [simp]: "steps step s [] s'"
inductive_simps steps_Cons: "steps step s (e # es) s'"

lemma steps_append:
  "steps step s (es' @ es) s'' \<longleftrightarrow> (\<exists>s'. steps step s es s' \<and> steps step s' es' s'')"
proof (induction es' arbitrary: s'')
  case (Cons e es')
  then show ?case by (auto simp: steps_Cons)
qed simp

lemma steps_induct_inv:
  assumes "steps step s es s'" "P [] s"
    and "\<And>es s e s'. P es s \<Longrightarrow> step s e s' \<Longrightarrow> P (e # es) s'"
  shows "P es s'"
  using assms by (induction rule: steps.induct) auto

text \<open>If every step lowers a measure by the weight of its event, the weights are bounded.\<close>

lemma steps_variant:
  assumes "steps step s es s'" "I s"
    and "\<And>s e s'. I s \<Longrightarrow> step s e s' \<Longrightarrow> I s' \<and> m s' + weight e \<le> (m s :: nat)"
  shows "I s' \<and> m s' + sum_list (map weight es) \<le> m s"
  using assms(1,2)
proof (induction rule: steps.induct)
  case (more s es s' e s'')
  with assms(3) [of s' e s''] show ?case by fastforce
qed simp

locale step_system =
  fixes init :: "'s \<Rightarrow> bool" and step :: "'s \<Rightarrow> 'e \<Rightarrow> 's \<Rightarrow> bool" and exec :: "'e list \<Rightarrow> 's \<Rightarrow> bool"
  assumes exec_iff: "exec es s \<longleftrightarrow> (\<exists>s0. init s0 \<and> steps step s0 es s)"
begin

lemma exec_step: "exec es s \<Longrightarrow> step s e s' \<Longrightarrow> exec (e # es) s'"
  by (auto simp: exec_iff steps_Cons)

lemma exec_append: "exec (es' @ es) s' \<longleftrightarrow> (\<exists>s. exec es s \<and> steps step s es' s')"
  by (auto simp: exec_iff steps_append)

lemma trace_invariant:
  assumes "exec es s" "\<And>s. init s \<Longrightarrow> P [] s"
    and "\<And>es s e s'. P es s \<Longrightarrow> step s e s' \<Longrightarrow> P (e # es) s'"
  shows "P es s"
  using assms steps_induct_inv [of step _ es s P] by (auto simp: exec_iff)

lemma invariant:
  assumes "exec es s" "\<And>s. init s \<Longrightarrow> P s" "\<And>s e s'. P s \<Longrightarrow> step s e s' \<Longrightarrow> P s'"
  shows "P s"
  using trace_invariant [of es s "\<lambda>_. P"] assms by blast

end

end
