(* ===== verification/Server.thy ===== *)
theory Server
  imports Runtime ProxyProtocol Health Task Steps
begin

text \<open>
  The tasks of \<open>src/main.rs\<close>: start-up, the accept loop, the dispatcher, the connection tasks, the health
  checker, the admin listener, SIGHUP reload and shutdown. The tasks are interleaved: \<open>server_step\<close> has one
  rule per atomic step of a task, labelled with an event, and one for the passing of time. A connection
  that was set up runs any number of requests, each a task that is started, resumed after every await,
  and answered or dropped; parsing HTTP and the TLS handshake belong to \<open>hyper\<close> and \<open>rustls\<close>, and only
  their outcome is a choice of the step.
\<close>

section \<open>Sessions\<close>

record accepted_conn =
  ac_stream :: stream
  ac_remote :: socket_addr

record proxy_svc =
  svc_ctx :: proxy_context
  svc_client_addr :: socket_addr

text \<open>
  A connection task: after an early return, before its handshake with the stream and the context it has
  set up, or serving requests, with those on their way.
\<close>

datatype 'k session = Rejected | Open socket_addr prefixed_stream proxy_context | Serving proxy_svc "'k list"

fun session_tasks :: "'k session \<Rightarrow> 'k list" where
  "session_tasks (Serving svc ts) = ts"
| "session_tasks _ = []"

text \<open>The address of the client and the rest of the stream; \<open>None\<close> where the code returns early.\<close>

definition client_address ::
  "config \<Rightarrow> acl option \<Rightarrow> accepted_conn \<Rightarrow> (socket_addr \<times> prefixed_stream) option" where
  "client_address cfg proxy_trusted c =
     (if proxy_protocol cfg
      then if \<not> (case proxy_trusted of Some a \<Rightarrow> is_allowed a (sa_ip (ac_remote c)) | None \<Rightarrow> True) then None
           else (case maybe_read_proxy_header (ac_stream c) of
                   Inr (Some h, s) \<Rightarrow> Some (src h, s)
                 | Inr (None, s) \<Rightarrow> Some (ac_remote c, s)
                 | Inl e \<Rightarrow> None)
      else Some (ac_remote c, prefixed_new (ac_stream c) []))"

definition session_idle :: "config \<Rightarrow> duration" where
  "session_idle cfg = from_secs (max (idle_secs (timeouts cfg)) 1)"

definition session_context :: "'s runtime \<Rightarrow> proxy_context" where
  "session_context rt =
     (let cfg = rt_config rt
      in \<lparr>ctx_router = rt_router rt, ctx_retries = retries cfg, ctx_request_timeout = request_timeout cfg,
          ctx_sticky = sticky cfg, ctx_headers = headers cfg, ctx_rate_limiter = rt_rate_limiter rt,
          ctx_max_body_bytes = max_body_bytes cfg, ctx_retry_idempotent_only = retry_idempotent_only cfg,
          ctx_force_retry_with_body = force_retry_with_body cfg,
          ctx_acl = Option.bind (config.acl cfg) (\<lambda>a. acl_from_config (acl_allow a) (acl_deny a)),
          ctx_security_headers = security_headers cfg, ctx_client_is_tls = (rt_tls rt \<noteq> None),
          ctx_request_limit = rt_request_limit rt, ctx_idle_timeout = session_idle cfg\<rparr>)"

definition max_conn_life :: "config \<Rightarrow> duration" where
  "max_conn_life cfg =
     max (duration_saturating_mul (session_idle cfg) 10) (duration_saturating_mul (request_timeout cfg) 2)"

definition open_session :: "'s runtime \<Rightarrow> accepted_conn \<Rightarrow> 'k session" where
  "open_session rt c =
     (case client_address (rt_config rt) (rt_proxy_trusted rt) c of
        None \<Rightarrow> Rejected
      | Some (addr, s) \<Rightarrow> Open addr s (session_context rt))"

text \<open>
  The service of a connection: behind TLS, which \<open>client_is_tls\<close> says, there is one only if the handshake
  succeeds, and its context says that the client uses TLS.
\<close>

definition connection_service :: "bool \<Rightarrow> proxy_context \<Rightarrow> socket_addr \<Rightarrow> proxy_svc option" where
  "connection_service handshake_ok ctx client_addr =
     (if ctx_client_is_tls ctx
      then (if handshake_ok
            then Some \<lparr>svc_ctx = ctx\<lparr>ctx_client_is_tls := True\<rparr>, svc_client_addr = client_addr\<rparr>
            else None)
      else Some \<lparr>svc_ctx = ctx, svc_client_addr = client_addr\<rparr>)"

definition serve_session :: "bool \<Rightarrow> proxy_context \<Rightarrow> socket_addr \<Rightarrow> 'k session" where
  "serve_session handshake_ok ctx client_addr =
     (case connection_service handshake_ok ctx client_addr of None \<Rightarrow> Rejected | Some svc \<Rightarrow> Serving svc [])"

text \<open>\<open>poll_ready\<close> is always ready and \<open>call\<close> is the handler.\<close>

definition proxy_svc_call ::
  "('h, 'b, 'e, 'env) externals \<Rightarrow> proxy_svc \<Rightarrow> ('h, 'b) request \<Rightarrow> 'env world
     \<Rightarrow> (('h, 'b) proxy_response \<times> 'env world) option" where
  "proxy_svc_call X svc rq w = proxy_request X rq (svc_ctx svc) (svc_client_addr svc) w"

text \<open>Driven to its end with nothing in between, the task that a request starts gives what \<open>call\<close> gives.\<close>

lemma proxy_svc_call_task:
  "proxy_svc_call X svc rq w =
     (case begin_request (x_http X) (svc_ctx svc) rq (svc_client_addr svc) w of
        None \<Rightarrow> None
      | Some (p, st, w') \<Rightarrow>
          map_option (\<lambda>(r, w). (r, drop_permit p w))
            (drive X (svc_ctx svc) rq (svc_client_addr svc) (w_clock w) st w'))"
  unfolding proxy_svc_call_def by (rule proxy_request_tasks)

section \<open>The server\<close>

text \<open>
  The main task accepts, sleeps until an instant while the connections end, returns at once when the
  channel was closed, or has ended the process.
\<close>

datatype main_phase = Accepting | Draining instant | Closing | Terminated

text \<open>
  The health checker: its thresholds and gauges, the rest of its round with the configuration it read, and
  when it wakes for the next one.
\<close>

record checker =
  ck_table :: "string \<rightharpoonup> threshold_state"
  ck_gauge :: "string \<rightharpoonup> int"
  ck_config :: health_check_config
  ck_pending :: "(lb_ref \<times> nat) list"
  ck_wake :: instant

record ('s, 'env, 'k) server =
  sv_world :: "'env world"
  sv_runtime :: "'s runtime"
  sv_state :: app_state
  sv_admin_token :: "string option"
  sv_shared_rl :: "nat option"
  sv_health :: "http_client \<times> health_check_config"
  sv_checker :: checker
  sv_admin_listening :: bool
  sv_queue :: "accepted_conn list"
  sv_channel_cap :: nat
  sv_conn_permits :: nat
  sv_sessions :: "'k session list"
  sv_active_connections :: "64 word"
  sv_phase :: main_phase
  sv_dispatching :: bool
  sv_shutdown :: bool

text \<open>The code outside the repository that loading a configuration uses.\<close>

record 's config_lib =
  cl_read_to_string :: "string \<Rightarrow> string option"
  cl_from_yaml :: "string \<Rightarrow> config option"
  cl_parse_uri :: "string \<Rightarrow> uri option"
  cl_file_exists :: "string \<Rightarrow> bool"
  cl_load_tls :: "string \<Rightarrow> string \<Rightarrow> tls_error + 's server_config"
  cl_native_roots :: bool
  cl_bind :: "socket_addr \<Rightarrow> bool"

definition load_file :: "'s config_lib \<Rightarrow> string \<Rightarrow> config_error + config" where
  "load_file F = from_file (cl_read_to_string F) (cl_from_yaml F) (cl_parse_uri F) (cl_file_exists F)"

text \<open>Sizes of the channel, the connection semaphore and the buffer pool.\<close>

definition max_conn :: "config \<Rightarrow> usize" where
  "max_conn cfg =
     (if max_connections cfg > 0 then max_connections cfg
      else (case max_concurrency cfg of Some n \<Rightarrow> n | None \<Rightarrow> 10000))"

definition channel_cap :: "config \<Rightarrow> usize" where
  "channel_cap cfg = max (max_conn cfg) 256"

definition conn_limit :: "config \<Rightarrow> usize" where
  "conn_limit cfg = max (max_conn cfg) 64"

definition buffer_pool_size :: "config \<Rightarrow> usize" where
  "buffer_pool_size cfg = min (max (max_conn cfg * 2) 256) 16384"

datatype start_error = ConfigError config_error | RuntimeError runtime_error | BindError

definition checker_new :: "health_check_config \<Rightarrow> checker" where
  "checker_new cfg = \<lparr>ck_table = Map.empty, ck_gauge = Map.empty, ck_config = cfg, ck_pending = [], ck_wake = 0\<rparr>"

text \<open>
  \<open>main\<close> up to its loops: \<open>None\<close> is a panic (a semaphore or channel that is too large), \<open>Inl\<close> an error
  \<open>main\<close> returns. The admin listener binds in a task of its own.
\<close>

definition start_server ::
  "'s config_lib \<Rightarrow> string \<Rightarrow> 'env world \<Rightarrow> (start_error + ('s, 'env, 'k) server) option" where
  "start_server F path w =
     (case load_file F path of
        Inl e \<Rightarrow> Some (Inl (ConfigError e))
      | Inr cfg \<Rightarrow>
          (case runtime_from_config (cl_native_roots F) (cl_load_tls F) cfg w of
             None \<Rightarrow> None
           | Some (Inl e) \<Rightarrow> Some (Inl (RuntimeError e))
           | Some (Inr (rt, w)) \<Rightarrow>
               if \<not> cl_bind F (listen cfg) then Some (Inl BindError)
               else (case (semaphore_new (conn_limit cfg), semaphore_new (channel_cap cfg)) of
                  (Some permits, Some cap) \<Rightarrow>
                    Some (Inr \<lparr>sv_world = w, sv_runtime = rt, sv_state = app_state_new cfg,
                               sv_admin_token = admin_token cfg, sv_shared_rl = rt_rate_limiter rt,
                               sv_health = (rt_client rt, health_check cfg),
                               sv_checker = checker_new (health_check cfg),
                               sv_admin_listening = cl_bind F (metrics_listen cfg), sv_queue = [],
                               sv_channel_cap = cap, sv_conn_permits = permits, sv_sessions = [],
                               sv_active_connections = 0, sv_phase = Accepting, sv_dispatching = True,
                               sv_shutdown = False\<rparr>)
                | _ \<Rightarrow> None)))"

text \<open>SIGHUP: a configuration that does not load or build changes nothing.\<close>

definition reload :: "'s config_lib \<Rightarrow> string \<Rightarrow> ('s, 'env, 'k) server \<Rightarrow> ('s, 'env, 'k) server option" where
  "reload F path s =
     (case load_file F path of
        Inl e \<Rightarrow> Some s
      | Inr cfg \<Rightarrow>
          (case runtime_from_config (cl_native_roots F) (cl_load_tls F) cfg (sv_world s) of
             None \<Rightarrow> None
           | Some (Inl e) \<Rightarrow> Some s
           | Some (Inr (new_rt, w)) \<Rightarrow>
               Some (s\<lparr>sv_admin_token := admin_token (rt_config new_rt),
                       sv_shared_rl := rt_rate_limiter new_rt,
                       sv_health := (rt_client new_rt, health_check (rt_config new_rt)),
                       sv_state := swap_config cfg (sv_state s),
                       sv_runtime := new_rt, sv_world := w\<rparr>)))"

definition count_shed :: "('s, 'env, 'k) server \<Rightarrow> ('s, 'env, 'k) server" where
  "count_shed s = s\<lparr>sv_world := upd_metrics (count_request ''ACCEPT'' ''503'' ''none'') (sv_world s)\<rparr>"

definition remove_nth :: "nat \<Rightarrow> 'a list \<Rightarrow> 'a list" where
  "remove_nth i xs = take i xs @ drop (Suc i) xs"

section \<open>The health checker\<close>

text \<open>
  The start of a round: the checker reads its inputs, among them the balancers of the current router. The
  sleep begins where the targets are exhausted.
\<close>

definition start_round :: "('s, 'env, 'k) server \<Rightarrow> checker" where
  "start_round s =
     (sv_checker s)\<lparr>ck_config := snd (sv_health s),
       ck_pending := targets (all_lbs (rt_router (sv_runtime s))) (w_store (sv_world s)),
       ck_wake := w_clock (sv_world s) + round_interval (snd (sv_health s))\<rparr>"

text \<open>One probe with its outcome, on the balancers of the world.\<close>

definition checker_world :: "checker \<Rightarrow> 'env world \<Rightarrow> health_world" where
  "checker_world c w = \<lparr>hw_state = ck_table c, hw_store = w_store w, hw_gauge = ck_gauge c\<rparr>"

definition apply_check :: "bool \<Rightarrow> lb_ref \<times> nat \<Rightarrow> ('s, 'env, 'k) server \<Rightarrow> ('s, 'env, 'k) server" where
  "apply_check ok t s =
     (let c = sv_checker s;
          hw = check_upstream (ck_config c) ok t (checker_world c (sv_world s))
      in s\<lparr>sv_checker := c\<lparr>ck_table := hw_state hw, ck_gauge := hw_gauge hw, ck_pending := tl (ck_pending c),
                               ck_wake := w_clock (sv_world s) + round_interval (ck_config c)\<rparr>,
           sv_world := (sv_world s)\<lparr>w_store := hw_store hw\<rparr>\<rparr>)"

section \<open>Operations of the tasks\<close>

text \<open>The accept loop on a shutdown: the channel is closed and the task sleeps for five seconds.\<close>

definition stop_accepting :: "('s, 'env, 'k) server \<Rightarrow> ('s, 'env, 'k) server" where
  "stop_accepting s = s\<lparr>sv_phase := Draining (w_clock (sv_world s) + from_secs 5)\<rparr>"

text \<open>The dispatcher with a permit: it reads the runtime, counts the connection and spawns its task.\<close>

definition spawn_connection ::
  "accepted_conn \<Rightarrow> accepted_conn list \<Rightarrow> ('s, 'env, 'k) server \<Rightarrow> ('s, 'env, 'k) server" where
  "spawn_connection c q s =
     s\<lparr>sv_queue := q, sv_conn_permits := sv_conn_permits s - 1,
       sv_active_connections := sv_active_connections s + 1,
       sv_sessions := sv_sessions s @ [open_session (sv_runtime s) c]\<rparr>"

text \<open>A request on session \<open>i\<close>: the code of the handler up to its first await.\<close>

definition request_task ::
  "('h, 'b) request \<Rightarrow> instant \<Rightarrow> nat option \<Rightarrow> ('h, 'b) rq_state \<Rightarrow> ('h, 'b) rq_task" where
  "request_task rq start p st = \<lparr>tk_request = rq, tk_start = start, tk_permit = p, tk_state = st\<rparr>"

definition set_tasks ::
  "nat \<Rightarrow> proxy_svc \<Rightarrow> 'k list \<Rightarrow> 'env world \<Rightarrow> ('s, 'env, 'k) server \<Rightarrow> ('s, 'env, 'k) server" where
  "set_tasks i svc ts w s = s\<lparr>sv_sessions := (sv_sessions s)[i := Serving svc ts], sv_world := w\<rparr>"

text \<open>Dropping a task returns its permit; the counters of its upstream have no guard.\<close>

definition drop_tasks :: "('h, 'b) rq_task list \<Rightarrow> 'env world \<Rightarrow> 'env world" where
  "drop_tasks ts w = foldl (\<lambda>w tk. drop_permit (tk_permit tk) w) w ts"

text \<open>The end of a connection task, when the connection closes or its lifetime is over.\<close>

definition end_connection ::
  "nat \<Rightarrow> ('s, 'env, ('h, 'b) rq_task) server \<Rightarrow> ('s, 'env, ('h, 'b) rq_task) server" where
  "end_connection i s =
     s\<lparr>sv_sessions := remove_nth i (sv_sessions s), sv_conn_permits := sv_conn_permits s + 1,
       sv_active_connections := sv_active_connections s - 1,
       sv_world := drop_tasks (session_tasks (sv_sessions s ! i)) (sv_world s)\<rparr>"

definition shutdown_signal :: "('s, 'env, 'k) server \<Rightarrow> ('s, 'env, 'k) server" where
  "shutdown_signal s = s\<lparr>sv_shutdown := True\<rparr>"

text \<open>What the loop of \<open>run_admin_server\<close> waits for, and whether it goes on.\<close>

datatype admin_poll = AdminShutdown | AdminConn | AdminError

definition admin_loop :: "admin_poll \<Rightarrow> bool \<Rightarrow> bool" where
  "admin_loop p shutdown = (case p of AdminShutdown \<Rightarrow> \<not> shutdown | AdminConn \<Rightarrow> True | AdminError \<Rightarrow> False)"

text \<open>\<open>main\<close> returns: the runtime is dropped with every task.\<close>

definition exit_process :: "('s, 'env, 'k) server \<Rightarrow> ('s, 'env, 'k) server" where
  "exit_process s =
     s\<lparr>sv_phase := Terminated, sv_queue := [], sv_dispatching := False, sv_sessions := [],
       sv_conn_permits := sv_conn_permits s + length (sv_sessions s), sv_active_connections := 0,
       sv_admin_listening := False\<rparr>"

lemmas server_ops [simp] =
  set_tasks_def stop_accepting_def spawn_connection_def end_connection_def shutdown_signal_def admin_loop_def exit_process_def

section \<open>Steps\<close>

text \<open>
  What is known of a request at its start: the limiter of its session, its client, the time, and whether
  it goes on to read its body or wait for an upstream.
\<close>

record served =
  sd_limiter :: "nat option"
  sd_ip :: ip_addr
  sd_time :: instant
  sd_forwarded :: bool

definition waiting :: "('h, 'b) rq_state \<Rightarrow> bool" where
  "waiting st = (case st of Answered r \<Rightarrow> False | _ \<Rightarrow> True)"

definition served_log :: "proxy_svc \<Rightarrow> 'env world \<Rightarrow> ('h, 'b) rq_state \<Rightarrow> served" where
  "served_log svc w st =
     \<lparr>sd_limiter = ctx_rate_limiter (svc_ctx svc), sd_ip = sa_ip (svc_client_addr svc), sd_time = w_clock w,
      sd_forwarded = waiting st\<rparr>"

datatype event =
    Accepted
  | AcceptShed
  | AcceptClosed
  | AcceptStopped
  | Dispatched
  | DispatchShed
  | DispatchStopped nat
  | Handshake nat bool
  | Requested nat served
  | Resumed nat nat
  | Responded nat nat
  | Cancelled nat "(lb_ref \<times> nat) option"
  | Finished nat "(lb_ref \<times> nat) option list"
  | RoundStarted
  | Checked "lb_ref \<times> nat" bool
  | AdminAccepted
  | AdminFailed
  | AdminStopped
  | Ticked
  | Signalled
  | Reloaded
  | Exited nat nat

inductive server_step ::
  "('h, 'b, 'e, 'env) externals \<Rightarrow> 's config_lib \<Rightarrow> ('s, 'env, ('h, 'b) rq_task) server \<Rightarrow> event
     \<Rightarrow> ('s, 'env, ('h, 'b) rq_task) server \<Rightarrow> bool"
  for X F
  where
    accept: "server_step X F s Accepted (s\<lparr>sv_queue := sv_queue s @ [c]\<rparr>)"
      if "sv_phase s = Accepting" "sv_dispatching s" "length (sv_queue s) < sv_channel_cap s"
  | accept_full: "server_step X F s AcceptShed (count_shed s)"
      if "sv_phase s = Accepting" "sv_dispatching s" "length (sv_queue s) \<ge> sv_channel_cap s"
  | accept_closed: "server_step X F s AcceptClosed (s\<lparr>sv_phase := Closing\<rparr>)"
      if "sv_phase s = Accepting" "\<not> sv_dispatching s"
  | accept_stop: "server_step X F s AcceptStopped (stop_accepting s)"
      if "sv_phase s = Accepting" "sv_shutdown s"
  | dispatch: "server_step X F s Dispatched (spawn_connection c q s)"
      if "sv_dispatching s" "sv_queue s = c # q" "0 < sv_conn_permits s"
  | dispatch_shed: "server_step X F s DispatchShed (count_shed (s\<lparr>sv_queue := q\<rparr>))"
      if "sv_dispatching s" "sv_queue s = c # q" "sv_conn_permits s = 0"
  | dispatch_stop: "server_step X F s (DispatchStopped (length (sv_queue s)))
        (s\<lparr>sv_queue := [], sv_dispatching := False\<rparr>)"
      if "sv_dispatching s" "sv_shutdown s \<or> (sv_queue s = [] \<and> sv_phase s \<noteq> Accepting)"
  | handshake: "server_step X F s (Handshake i ok)
        (s\<lparr>sv_sessions := (sv_sessions s)[i := serve_session ok ctx addr]\<rparr>)"
      if "i < length (sv_sessions s)" "sv_sessions s ! i = Open addr st ctx"
  | request: "server_step X F s (Requested i (served_log svc (sv_world s) st))
        (set_tasks i svc (ts @ [request_task rq (w_clock (sv_world s)) p st]) w s)"
      if "i < length (sv_sessions s)" "sv_sessions s ! i = Serving svc ts"
         "begin_request (x_http X) (svc_ctx svc) rq (svc_client_addr svc) (sv_world s) = Some (p, st, w)"
  | resume: "server_step X F s (Resumed i j) (set_tasks i svc (ts[j := tk]) w s)"
      if "i < length (sv_sessions s)" "sv_sessions s ! i = Serving svc ts" "j < length ts"
         "task_step X (svc_ctx svc) (svc_client_addr svc) (ts ! j) (sv_world s) tk w"
  | respond: "server_step X F s (Responded i j)
        (set_tasks i svc (remove_nth j ts) (drop_tasks [ts ! j] (sv_world s)) s)"
      if "i < length (sv_sessions s)" "sv_sessions s ! i = Serving svc ts" "j < length ts"
         "\<not> waiting (tk_state (ts ! j))"
  | cancel: "server_step X F s (Cancelled i (at_upstream (tk_state (ts ! j))))
        (set_tasks i svc (remove_nth j ts) (drop_tasks [ts ! j] (sv_world s)) s)"
      if "i < length (sv_sessions s)" "sv_sessions s ! i = Serving svc ts" "j < length ts"
         "waiting (tk_state (ts ! j))"
  | finish: "server_step X F s
        (Finished i (map (\<lambda>tk. at_upstream (tk_state tk)) (session_tasks (sv_sessions s ! i)))) (end_connection i s)"
      if "i < length (sv_sessions s)"
  | round: "server_step X F s RoundStarted (s\<lparr>sv_checker := start_round s\<rparr>)"
      if "sv_phase s \<noteq> Terminated" "ck_pending (sv_checker s) = []" "ck_wake (sv_checker s) \<le> w_clock (sv_world s)"
  | probe: "server_step X F s (Checked (l, i) ok) (apply_check ok (l, i) (s\<lparr>sv_world := (sv_world s)\<lparr>w_env := env\<rparr>\<rparr>))"
      if "sv_phase s \<noteq> Terminated" "ck_pending (sv_checker s) = (l, i) # ts"
         "check_one (cl_parse_uri F) probe (rt_address (lb_upstreams (w_store (sv_world s) ! l) ! i))
            (health_path (ck_config (sv_checker s))) (from_secs (max (timeout_secs (ck_config (sv_checker s))) 1))
            (w_env (sv_world s)) = (ok, env)"
  | admin_accept: "server_step X F s AdminAccepted (s\<lparr>sv_admin_listening := admin_loop AdminConn (sv_shutdown s)\<rparr>)"
      if "sv_admin_listening s"
  | admin_fail: "server_step X F s AdminFailed (s\<lparr>sv_admin_listening := admin_loop AdminError (sv_shutdown s)\<rparr>)"
      if "sv_admin_listening s"
  | admin_stop: "server_step X F s AdminStopped (s\<lparr>sv_admin_listening := admin_loop AdminShutdown (sv_shutdown s)\<rparr>)"
      if "sv_admin_listening s" "sv_shutdown s"
  | tick: "server_step X F s Ticked (s\<lparr>sv_world := (sv_world s)\<lparr>w_clock := t\<rparr>\<rparr>)"
      if "sv_phase s \<noteq> Terminated" "w_clock (sv_world s) \<le> t"
  | signal: "server_step X F s Signalled (shutdown_signal s)"
      if "sv_phase s \<noteq> Terminated"
  | sighup: "server_step X F s Reloaded s'"
      if "sv_phase s \<noteq> Terminated"
         "reload (F\<lparr>cl_read_to_string := rd, cl_file_exists := ex, cl_load_tls := ld, cl_native_roots := nr\<rparr>) path s = Some s'"
  | exit: "server_step X F s (Exited (length (sv_queue s)) (length (sv_sessions s))) (exit_process s)"
      if "sv_phase s = Closing \<or> (\<exists>t \<le> w_clock (sv_world s). sv_phase s = Draining t)"

text \<open>The shared state of a new process.\<close>

definition fresh_world :: "instant \<Rightarrow> 'env \<Rightarrow> 'env world" where
  "fresh_world now env =
     \<lparr>w_store = [], w_limiters = [], w_permits = [], w_metrics = metrics_new, w_tunnels = [], w_clock = now,
      w_env = env\<rparr>"

text \<open>
  A run from start-up, with the events so far, newest first. The files may differ from one reload to the
  next.
\<close>

definition run ::
  "('h, 'b, 'e, 'env) externals \<Rightarrow> 's config_lib \<Rightarrow> string \<Rightarrow> event list \<Rightarrow> ('s, 'env, ('h, 'b) rq_task) server \<Rightarrow> bool" where
  "run X F path es s =
     (\<exists>now env s0. start_server F path (fresh_world now env) = Some (Inr s0) \<and> steps (server_step X F) s0 es s)"

interpretation srv: step_system
  "\<lambda>s. \<exists>now env. start_server F path (fresh_world now env) = Some (Inr s)" "server_step X F" "run X F path" for X F path
  by unfold_locales (auto simp: run_def)

inductive_cases server_stepE: "server_step X F s e s'"

section \<open>Bounds and conservation\<close>

definition capacity_inv :: "config \<Rightarrow> ('s, 'env, 'k) server \<Rightarrow> bool" where
  "capacity_inv cfg s \<longleftrightarrow>
     sv_channel_cap s = unat (channel_cap cfg) \<and> length (sv_queue s) \<le> sv_channel_cap s
     \<and> length (sv_sessions s) + sv_conn_permits s = unat (conn_limit cfg)
     \<and> sv_active_connections s = of_nat (length (sv_sessions s))"

lemma length_remove_nth: "i < length xs \<Longrightarrow> length (remove_nth i xs) = length xs - 1"
  by (simp add: remove_nth_def)

lemma reload_fields:
  assumes "reload F path s = Some s'"
  shows "sv_queue s' = sv_queue s" "sv_channel_cap s' = sv_channel_cap s"
    "sv_conn_permits s' = sv_conn_permits s" "sv_sessions s' = sv_sessions s"
    "sv_active_connections s' = sv_active_connections s" "sv_phase s' = sv_phase s"
    "sv_shutdown s' = sv_shutdown s" "sv_dispatching s' = sv_dispatching s"
    "sv_admin_listening s' = sv_admin_listening s" "sv_checker s' = sv_checker s"
  using assms by (auto simp: reload_def split: sum.splits option.splits)

lemma count_shed_fields [simp]:
  "sv_queue (count_shed s) = sv_queue s" "sv_channel_cap (count_shed s) = sv_channel_cap s"
  "sv_conn_permits (count_shed s) = sv_conn_permits s" "sv_sessions (count_shed s) = sv_sessions s"
  "sv_active_connections (count_shed s) = sv_active_connections s"
  "sv_runtime (count_shed s) = sv_runtime s" "sv_state (count_shed s) = sv_state s"
  "sv_admin_token (count_shed s) = sv_admin_token s" "sv_shared_rl (count_shed s) = sv_shared_rl s"
  "sv_health (count_shed s) = sv_health s" "sv_phase (count_shed s) = sv_phase s"
  "sv_shutdown (count_shed s) = sv_shutdown s" "sv_dispatching (count_shed s) = sv_dispatching s"
  "sv_admin_listening (count_shed s) = sv_admin_listening s" "sv_checker (count_shed s) = sv_checker s"
  by (simp_all add: count_shed_def)

lemma apply_check_fields [simp]:
  "sv_queue (apply_check ok t s) = sv_queue s" "sv_channel_cap (apply_check ok t s) = sv_channel_cap s"
  "sv_conn_permits (apply_check ok t s) = sv_conn_permits s" "sv_sessions (apply_check ok t s) = sv_sessions s"
  "sv_active_connections (apply_check ok t s) = sv_active_connections s"
  "sv_runtime (apply_check ok t s) = sv_runtime s" "sv_state (apply_check ok t s) = sv_state s"
  "sv_admin_token (apply_check ok t s) = sv_admin_token s" "sv_shared_rl (apply_check ok t s) = sv_shared_rl s"
  "sv_health (apply_check ok t s) = sv_health s" "sv_phase (apply_check ok t s) = sv_phase s"
  "sv_shutdown (apply_check ok t s) = sv_shutdown s" "sv_dispatching (apply_check ok t s) = sv_dispatching s"
  "sv_admin_listening (apply_check ok t s) = sv_admin_listening s"
  "w_limiters (sv_world (apply_check ok t s)) = w_limiters (sv_world s)"
  "w_clock (sv_world (apply_check ok t s)) = w_clock (sv_world s)"
  by (simp_all add: apply_check_def Let_def)

lemma step_capacity:
  assumes "server_step X F s e s'" "capacity_inv cfg s"
  shows "capacity_inv cfg s'"
  using assms
proof (induction rule: server_step.induct)
  case (finish i s)
  then have "0 < length (sv_sessions s)" by linarith
  with finish show ?case
    by (simp add: capacity_inv_def length_remove_nth of_nat_diff)
next
  case (sighup s rd ex ld nr path s')
  with reload_fields [OF sighup(2)] show ?case by (simp add: capacity_inv_def)
qed (auto simp: capacity_inv_def)

lemma semaphore_new_Some: "semaphore_new n = Some k \<Longrightarrow> k = unat n"
  by (auto simp: semaphore_new_def split: if_splits)

lemma start_server_state:
  assumes "start_server F path w = Some (Inr s)"
  shows "\<exists>cfg rt w'. load_file F path = Inr cfg
           \<and> runtime_from_config (cl_native_roots F) (cl_load_tls F) cfg w = Some (Inr (rt, w'))
           \<and> s = \<lparr>sv_world = w', sv_runtime = rt, sv_state = app_state_new cfg,
                  sv_admin_token = admin_token cfg, sv_shared_rl = rt_rate_limiter rt,
                  sv_health = (rt_client rt, health_check cfg),
                  sv_checker = checker_new (health_check cfg),
                  sv_admin_listening = cl_bind F (metrics_listen cfg), sv_queue = [],
                  sv_channel_cap = unat (channel_cap cfg), sv_conn_permits = unat (conn_limit cfg),
                  sv_sessions = [], sv_active_connections = 0, sv_phase = Accepting,
                  sv_dispatching = True, sv_shutdown = False\<rparr>"
  using assms
  by (auto simp: start_server_def split: sum.splits option.splits if_splits dest!: semaphore_new_Some)

lemma start_server_inv:
  assumes "start_server F path w = Some (Inr s)"
  shows "\<exists>cfg. load_file F path = Inr cfg \<and> capacity_inv cfg s"
  using start_server_state [OF assms] by (auto simp: capacity_inv_def)

text \<open>Where the connections that entered the queue have gone.\<close>

definition tally :: "event \<Rightarrow> event list \<Rightarrow> nat" where
  "tally e es = length (filter (\<lambda>x. x = e) es)"

definition finished :: "event list \<Rightarrow> nat" where
  "finished es = length (filter (\<lambda>x. case x of Finished _ _ \<Rightarrow> True | _ \<Rightarrow> False) es)"

definition dropped :: "event list \<Rightarrow> nat" where
  "dropped es = sum_list (map (\<lambda>x. case x of DispatchStopped n \<Rightarrow> n | Exited q n \<Rightarrow> q + n | _ \<Rightarrow> 0) es)"

definition balance :: "event list \<Rightarrow> ('s, 'env, 'k) server \<Rightarrow> bool" where
  "balance es s \<longleftrightarrow>
     tally Accepted es = length (sv_queue s) + length (sv_sessions s) + finished es
                         + tally DispatchShed es + dropped es"

lemma step_balance:
  assumes "server_step X F s e s'" "balance es s"
  shows "balance (e # es) s'"
  using assms
proof (induction rule: server_step.induct)
  case (finish i s)
  then show ?case
    by (simp add: balance_def length_remove_nth tally_def finished_def dropped_def)
next
  case (sighup s rd ex ld nr path s')
  with reload_fields [OF sighup(2)] show ?case
    by (simp add: balance_def tally_def finished_def dropped_def)
qed (auto simp: balance_def tally_def finished_def dropped_def)

lemma run_inv:
  assumes "run X F path es (s :: ('s, 'env, ('h, 'b) rq_task) server)"
  shows "\<exists>cfg. load_file F path = Inr cfg \<and> capacity_inv cfg s \<and> balance es s"
  using assms
proof (rule srv.trace_invariant)
  fix s :: "('s, 'env, ('h, 'b) rq_task) server"
  assume "\<exists>now env. start_server F path (fresh_world now env) = Some (Inr s)"
  then obtain w where start: "start_server F path w = Some (Inr s)" by blast
  have "balance [] s"
    using start_server_state [OF start] by (auto simp: balance_def tally_def finished_def dropped_def)
  with start_server_inv [OF start] show "\<exists>cfg. load_file F path = Inr cfg \<and> capacity_inv cfg s \<and> balance [] s"
    by blast
qed (use step_capacity step_balance in blast)

section \<open>One configuration at a time\<close>

text \<open>A runtime that was built from a validated configuration.\<close>

definition runtime_ok :: "(string \<Rightarrow> uri option) \<Rightarrow> 's runtime \<Rightarrow> bool" where
  "runtime_ok parse_uri rt \<longleftrightarrow>
     (let cfg = rt_config rt
      in valid_config parse_uri cfg
         \<and> rt_client rt = client_settings (config_client_options cfg)
         \<and> (rt_rate_limiter rt = None \<longleftrightarrow> rate_limit cfg = None)
         \<and> (rt_request_limit rt = None \<longleftrightarrow> max_connections cfg = 0)
         \<and> rt_proxy_trusted rt =
             (if proxy_protocol cfg \<and> proxy_protocol_trusted_cidrs cfg \<noteq> []
              then acl_from_config (proxy_protocol_trusted_cidrs cfg) [] else None))"

text \<open>What a connection is set up with under a runtime, and the sessions it can be.\<close>

definition opened :: "'s runtime \<Rightarrow> accepted_conn \<Rightarrow> socket_addr \<Rightarrow> prefixed_stream \<Rightarrow> proxy_context \<Rightarrow> bool" where
  "opened rt c addr st ctx \<longleftrightarrow>
     client_address (rt_config rt) (rt_proxy_trusted rt) c = Some (addr, st) \<and> ctx = session_context rt"

definition session_of :: "'s runtime \<Rightarrow> accepted_conn \<Rightarrow> 'k session \<Rightarrow> bool" where
  "session_of rt c x =
     (case x of
        Rejected \<Rightarrow> True
      | Open addr st ctx \<Rightarrow> opened rt c addr st ctx
      | Serving svc ts \<Rightarrow> \<exists>st. opened rt c (svc_client_addr svc) st (svc_ctx svc))"

lemma session_of_open: "session_of rt c (open_session rt c)"
  by (auto simp: session_of_def open_session_def opened_def split: option.split)

lemma session_of_serve:
  assumes "session_of rt c (Open addr st ctx)"
  shows "session_of rt c (serve_session ok ctx addr)"
proof -
  have tls: "ctx\<lparr>ctx_client_is_tls := True\<rparr> = ctx" if "ctx_client_is_tls ctx"
    using that by (cases ctx) simp
  show ?thesis
    using assms by (auto simp: session_of_def serve_session_def connection_service_def tls)
qed

text \<open>
  Every shared piece of the state comes from the configuration of the current runtime, and every open
  session from some validated configuration.
\<close>

definition coherent :: "'s config_lib \<Rightarrow> ('s, 'env, 'k) server \<Rightarrow> bool" where
  "coherent F s \<longleftrightarrow>
     runtime_ok (cl_parse_uri F) (sv_runtime s)
     \<and> load_config (sv_state s) = rt_config (sv_runtime s)
     \<and> sv_admin_token s = admin_token (rt_config (sv_runtime s))
     \<and> sv_shared_rl s = rt_rate_limiter (sv_runtime s)
     \<and> sv_health s = (rt_client (sv_runtime s), health_check (rt_config (sv_runtime s)))
     \<and> (\<forall>x \<in> set (sv_sessions s). \<exists>(rt :: 's runtime) c. runtime_ok (cl_parse_uri F) rt \<and> session_of rt c x)"

lemma runtime_from_config_ok:
  assumes "runtime_from_config nr ld c w = Some (Inr (rt, w'))" "valid_config parse_uri c"
  shows "rt_config rt = c" and "runtime_ok parse_uri rt"
proof -
  note parts = runtime_from_config_parts [OF assms(1)]
  show "rt_config rt = c" by (rule parts(1))
  have "rt_rate_limiter rt = None \<longleftrightarrow> rate_limit c = None"
    using alloc_spec [OF parts(5) [symmetric]] by (auto split: option.splits)
  moreover have "rt_request_limit rt = None \<longleftrightarrow> max_connections c = 0"
    using parts(6) by (auto simp: alloc_def word_gt_0 split: if_splits)
  ultimately show "runtime_ok parse_uri rt"
    using parts(1,2,7) assms(2) by (simp add: runtime_ok_def Let_def)
qed

lemma load_file_valid: "load_file F path = Inr cfg \<Longrightarrow> valid_config (cl_parse_uri F) cfg"
  by (auto simp: load_file_def from_file_def split: option.splits sum.splits intro: validate_valid_config)

lemma start_coherent:
  assumes "start_server F path w = Some (Inr s)"
  shows "coherent F s"
proof -
  obtain cfg rt w' where l: "load_file F path = Inr cfg"
    and r: "runtime_from_config (cl_native_roots F) (cl_load_tls F) cfg w = Some (Inr (rt, w'))"
    and s: "sv_runtime s = rt" "sv_state s = app_state_new cfg" "sv_admin_token s = admin_token cfg"
      "sv_shared_rl s = rt_rate_limiter rt" "sv_health s = (rt_client rt, health_check cfg)"
    "sv_sessions s = []"
    using start_server_state [OF assms] by auto
  show ?thesis
    using runtime_from_config_ok [OF r load_file_valid [OF l]]
    by (simp add: coherent_def s app_state_new_def load_config_def)
qed

lemma reload_coherent:
  assumes "reload F' path s = Some s'" "coherent F s" "cl_parse_uri F' = cl_parse_uri F"
  shows "coherent F s'"
proof (cases "s' = s")
  case False
  then obtain cfg rt w' where l: "load_file F' path = Inr cfg"
    and r: "runtime_from_config (cl_native_roots F') (cl_load_tls F') cfg (sv_world s) = Some (Inr (rt, w'))"
    and s': "s' = s\<lparr>sv_admin_token := admin_token (rt_config rt), sv_shared_rl := rt_rate_limiter rt,
                    sv_health := (rt_client rt, health_check (rt_config rt)),
                    sv_state := swap_config cfg (sv_state s), sv_runtime := rt, sv_world := w'\<rparr>"
    using assms(1) by (auto simp: reload_def split: sum.splits option.splits)
  show ?thesis
    using runtime_from_config_ok [OF r load_file_valid [OF l]] assms(2,3)
    by (simp add: coherent_def s' swap_config_def load_config_def)
qed (use assms in simp)

lemma set_tasks_coherent:
  assumes "coherent F s" "i < length (sv_sessions s)" "sv_sessions s ! i = Serving svc ts"
  shows "coherent F (set_tasks i svc ts' w s)"
proof -
  have "Serving svc ts \<in> set (sv_sessions s)" using assms(2,3) by (metis nth_mem)
  moreover have "session_of rt c (Serving svc ts) \<Longrightarrow> session_of rt c (Serving svc ts')" for rt c
    by (simp add: session_of_def)
  ultimately show ?thesis
    using assms(1) set_update_subset_insert [of "sv_sessions s" i "Serving svc ts'"]
    unfolding coherent_def by simp blast
qed

lemma step_coherent:
  assumes "server_step X F s e s'" "coherent F s"
  shows "coherent F s'"
  using assms
proof (induction rule: server_step.induct)
  case (sighup s rd ex ld nr path s')
  then show ?case by (auto intro: reload_coherent)
next
  case (finish i s)
  have "set (remove_nth i (sv_sessions s)) \<subseteq> set (sv_sessions s)"
    unfolding remove_nth_def by (auto dest: in_set_takeD in_set_dropD)
  with finish show ?case by (auto simp: coherent_def)
next
  case (dispatch s c q)
  then show ?case using session_of_open by (auto simp: coherent_def)
next
  case (handshake i s addr st ctx ok)
  then have "Open addr st ctx \<in> set (sv_sessions s)" by (metis nth_mem)
  with handshake show ?case
    using set_update_subset_insert [of "sv_sessions s" i] session_of_serve [of _ _ addr st ctx]
    unfolding coherent_def by simp blast
next
  case (request i s svc ts rq p st w)
  then show ?case by (blast intro: set_tasks_coherent)
next
  case (resume i s svc ts j tk w)
  then show ?case by (blast intro: set_tasks_coherent)
next
  case (respond i s svc ts j)
  then show ?case by (blast intro: set_tasks_coherent)
next
  case (cancel i s svc ts j)
  then show ?case by (blast intro: set_tasks_coherent)
qed (auto simp: coherent_def)

lemma run_coherent: "run X F path es s \<Longrightarrow> coherent F s"
  by (erule srv.invariant) (auto intro: start_coherent step_coherent)

section \<open>Sessions of a validated configuration\<close>

lemma session_acl:
  assumes "runtime_ok parse_uri rt" "config.acl (rt_config rt) = Some a"
  shows "\<exists>l. acl_from_config (acl_allow a) (acl_deny a) = Some l \<and> ctx_acl (session_context rt) = Some l"
proof -
  have "\<forall>x \<in> set (acl_allow a @ acl_deny a). validate_cidr x = Inr ()"
    using assms by (simp add: runtime_ok_def valid_config_def Let_def)
  from acl_from_config_Some [OF this] assms(2) show ?thesis
    by (auto simp: session_context_def Let_def)
qed

lemma open_session_address:
  assumes ok: "runtime_ok parse_uri rt" and o: "opened rt c addr st ctx"
  shows "ctx = session_context rt
         \<and> (addr = ac_remote c
            \<or> (proxy_protocol (rt_config rt)
               \<and> (proxy_protocol_trusted_cidrs (rt_config rt) = []
                  \<or> (\<exists>l. acl_from_config (proxy_protocol_trusted_cidrs (rt_config rt)) [] = Some l
                         \<and> is_allowed l (sa_ip (ac_remote c))))
               \<and> (\<exists>h. maybe_read_proxy_header (ac_stream c) = Inr (Some h, st) \<and> addr = src h)))"
proof -
  obtain s where ca: "client_address (rt_config rt) (rt_proxy_trusted rt) c = Some (addr, st)"
    and ctx: "ctx = session_context rt"
    using o by (auto simp: opened_def)
  have "\<exists>l. acl_from_config (proxy_protocol_trusted_cidrs (rt_config rt)) [] = Some l"
    using ok by (intro acl_from_config_Some) (simp add: runtime_ok_def valid_config_def Let_def)
  then show ?thesis
    using ca ctx ok
    by (auto simp: client_address_def runtime_ok_def Let_def split: if_splits sum.splits option.splits prod.splits)
qed

lemma serving_runtime:
  assumes "run X (F :: 's config_lib) path es s" "Serving svc ts \<in> set (sv_sessions s)"
  shows "\<exists>(rt :: 's runtime) c st. runtime_ok (cl_parse_uri F) rt
           \<and> opened rt c (svc_client_addr svc) st (svc_ctx svc)"
proof -
  obtain rt :: "'s runtime" and c where "runtime_ok (cl_parse_uri F) rt" "session_of rt c (Serving svc ts)"
    using run_coherent [OF assms(1)] assms(2) unfolding coherent_def by blast
  then show ?thesis by (auto simp: session_of_def)
qed

section \<open>Contexts\<close>

text \<open>
  The contexts in use: that of the current runtime and those of the sessions. Only a reload brings in a new
  one, so what holds of the context of a new runtime and is kept by every step holds of all of them.
\<close>

fun session_ctx :: "'k session \<Rightarrow> proxy_context option" where
  "session_ctx Rejected = None"
| "session_ctx (Open addr st ctx) = Some ctx"
| "session_ctx (Serving svc ts) = Some (svc_ctx svc)"

definition ctxs :: "('s, 'env, 'k) server \<Rightarrow> proxy_context set" where
  "ctxs s = insert (session_context (sv_runtime s)) {c. \<exists>x \<in> set (sv_sessions s). session_ctx x = Some c}"

lemma serving_ctx: "Serving svc ts \<in> set (sv_sessions s) \<Longrightarrow> svc_ctx svc \<in> ctxs s"
  unfolding ctxs_def by force

lemma session_ctx_new:
  "session_ctx (open_session rt c) \<in> {None, Some (session_context rt)}"
  "session_ctx (serve_session ok ctx addr) \<in> {None, Some ctx}"
proof -
  have tls: "ctx\<lparr>ctx_client_is_tls := True\<rparr> = ctx" if "ctx_client_is_tls ctx"
    using that by (cases ctx) simp
  show "session_ctx (open_session rt c) \<in> {None, Some (session_context rt)}"
    "session_ctx (serve_session ok ctx addr) \<in> {None, Some ctx}"
    by (auto simp: open_session_def serve_session_def connection_service_def tls split: option.splits)
qed

lemma ctxs_update:
  assumes "session_ctx y \<in> {None, session_ctx (sv_sessions s ! i)}" "i < length (sv_sessions s)"
    and "sv_runtime s' = sv_runtime s" "sv_sessions s' = (sv_sessions s)[i := y]"
  shows "ctxs s' \<subseteq> ctxs s"
proof -
  have "\<exists>z \<in> set (sv_sessions s). session_ctx z = Some c" if "x \<in> set (sv_sessions s')" "session_ctx x = Some c" for x c
  proof (cases "x = y")
    case True
    then have "session_ctx (sv_sessions s ! i) = Some c" using that(2) assms(1) by auto
    then show ?thesis using nth_mem [OF assms(2)] by blast
  next
    case False
    then have "x \<in> set (sv_sessions s)"
      using that(1) assms(4) set_update_subset_insert [of "sv_sessions s" i y] by auto
    then show ?thesis using that(2) by blast
  qed
  with assms(3) show ?thesis unfolding ctxs_def by auto
qed

lemma set_remove_nth: "set (remove_nth i xs) \<subseteq> set xs"
  unfolding remove_nth_def by (auto dest: in_set_takeD in_set_dropD)

lemma step_ctxs:
  assumes "server_step X F s e s'"
  shows "ctxs s' \<subseteq> ctxs s
         \<or> (\<exists>F' path. cl_parse_uri F' = cl_parse_uri F \<and> reload F' path s = Some s'
              \<and> ctxs s' \<subseteq> insert (session_context (sv_runtime s')) (ctxs s))"
  using assms
proof (cases rule: server_step.cases)
  case (dispatch c q)
  then have "sv_sessions s' = sv_sessions s @ [open_session (sv_runtime s) c]" "sv_runtime s' = sv_runtime s"
    by simp_all
  with session_ctx_new(1) [of "sv_runtime s" c] show ?thesis
    unfolding ctxs_def by (intro disjI1 subsetI) (auto simp: open_session_def split: option.splits)
next
  case (handshake i addr st ctx ok)
  then show ?thesis
    by (intro disjI1 ctxs_update [of "serve_session ok ctx addr" s i]) (use session_ctx_new(2) in auto)
next
  case (request i svc ts rq p st w)
  then show ?thesis by (intro disjI1 ctxs_update) auto
next
  case (resume i svc ts j tk w)
  then show ?thesis by (intro disjI1 ctxs_update) auto
next
  case (respond i svc ts j)
  then show ?thesis by (intro disjI1 ctxs_update) auto
next
  case (cancel i svc ts j)
  then show ?thesis by (intro disjI1 ctxs_update) auto
next
  case (finish i)
  then show ?thesis using set_remove_nth [of i "sv_sessions s"] by (intro disjI1) (auto simp: ctxs_def)
next
  case (sighup rd ex ld nr path)
  have "ctxs s' \<subseteq> insert (session_context (sv_runtime s')) (ctxs s)"
    using reload_fields(4) [OF sighup(3)] by (auto simp: ctxs_def)
  with sighup(3) show ?thesis by (intro disjI2 exI conjI) auto
qed (auto simp: ctxs_def)

locale context_inv =
  fixes X :: "('h, 'b, 'e, 'env) externals" and F :: "'s config_lib" and P :: "'env world \<Rightarrow> proxy_context \<Rightarrow> bool"
  assumes kept: "server_step X F s e s' \<Longrightarrow> P (sv_world s) c \<Longrightarrow> P (sv_world s') c"
    and built: "runtime_from_config nr ld cfg w = Some (Inr (rt :: 's runtime, w'))
                \<Longrightarrow> valid_config (cl_parse_uri F) cfg \<Longrightarrow> P w' (session_context rt)"
begin

lemma holds:
  assumes "run X F path es s"
  shows "\<forall>c \<in> ctxs s. P (sv_world s) c"
  using assms
proof (rule srv.invariant)
  fix s :: "('s, 'env, ('h, 'b) rq_task) server"
  assume "\<exists>now env. start_server F path (fresh_world now env) = Some (Inr s)"
  then obtain w where "start_server F path w = Some (Inr s)" by blast
  from start_server_state [OF this] show "\<forall>c \<in> ctxs s. P (sv_world s) c"
    by (auto simp: ctxs_def intro: built load_file_valid)
next
  fix s e s'
  assume inv: "\<forall>c \<in> ctxs s. P (sv_world s) c" and step: "server_step X F s e s'"
  have new: "P (sv_world s') (session_context (sv_runtime s'))"
    if "cl_parse_uri F' = cl_parse_uri F" "reload F' path s = Some s'" for F' path
    using that inv load_file_valid [of F' path]
    by (auto simp: reload_def ctxs_def split: sum.splits option.splits intro: built)
  show "\<forall>c \<in> ctxs s'. P (sv_world s') c"
    using step_ctxs [OF step] inv kept [OF step] new by blast
qed

end

section \<open>Tasks\<close>

text \<open>
  Where the tasks of a session come from: a request has just started, a task has gone on after an await, or
  it was there before.
\<close>

lemma list_update_cases:
  assumes "x \<in> set (xs[i := y])"
  obtains "x = y" | "x \<in> set xs"
  using assms set_update_subset_insert [of xs i y] by auto

lemma set_tasks_cases:
  assumes "Serving svc ts \<in> set (sv_sessions (set_tasks i svc' us w s))"
    and "i < length (sv_sessions s)" "sv_sessions s ! i = Serving svc' ts'"
  obtains (here) "svc' = svc" "us = ts" "Serving svc ts' \<in> set (sv_sessions s)"
    | (elsewhere) "Serving svc ts \<in> set (sv_sessions s)"
proof -
  have "Serving svc' ts' \<in> set (sv_sessions s)" using assms(2,3) by (metis nth_mem)
  with assms(1) show thesis by (auto elim!: list_update_cases intro: here elsewhere)
qed

lemma step_tasks:
  assumes "server_step X F s e s'" "Serving svc ts \<in> set (sv_sessions s')" "tk \<in> set ts"
  obtains (old) ts0 where "Serving svc ts0 \<in> set (sv_sessions s)" "tk \<in> set ts0"
    | (fresh) ts0 rq p st w where "Serving svc ts0 \<in> set (sv_sessions s)"
        "begin_request (x_http X) (svc_ctx svc) rq (svc_client_addr svc) (sv_world s) = Some (p, st, w)"
        "tk = request_task rq (w_clock (sv_world s)) p st"
    | (moved) ts0 tk0 w where "Serving svc ts0 \<in> set (sv_sessions s)" "tk0 \<in> set ts0"
        "task_step X (svc_ctx svc) (svc_client_addr svc) tk0 (sv_world s) tk w"
  using assms(1)
proof (cases rule: server_step.cases)
  case (dispatch c q)
  with assms(2,3) show ?thesis by (auto simp: open_session_def split: option.splits intro: old)
next
  case (handshake i addr st ctx ok)
  with assms(2,3) show ?thesis
    by (auto simp: serve_session_def split: option.splits elim!: list_update_cases intro: old)
next
  case (request i svc' ts' rq p st w)
  from assms(2) [unfolded request(2)] request(3,4) show ?thesis
    by (cases rule: set_tasks_cases) (use assms(3) request(5) old fresh in auto)
next
  case (resume i svc' ts' j tk' w)
  from assms(2) [unfolded resume(2)] resume(3,4) show ?thesis
  proof (cases rule: set_tasks_cases)
    case here
    from assms(3) [folded here(2)] show ?thesis
      by (rule list_update_cases) (use here resume(6) old moved [OF here(3) nth_mem [OF resume(5)]] in auto)
  qed (use assms(3) old in blast)
next
  case (respond i svc' ts' j)
  from assms(2) [unfolded respond(2)] respond(3,4) show ?thesis
    by (cases rule: set_tasks_cases) (use assms(3) set_remove_nth [of j ts'] old in blast)+
next
  case (cancel i svc' ts' j)
  from assms(2) [unfolded cancel(2)] cancel(3,4) show ?thesis
    by (cases rule: set_tasks_cases) (use assms(3) set_remove_nth [of j ts'] old in blast)+
next
  case (finish i)
  then have "Serving svc ts \<in> set (sv_sessions s)" using assms(2) set_remove_nth [of i "sv_sessions s"] by auto
  with assms(3) show ?thesis by (rule old [rotated])
next
  case (sighup rd ex ld nr path)
  then show ?thesis using assms(2,3) old by (simp add: reload_fields)
qed (use assms(2,3) old in auto)

locale task_inv =
  fixes X :: "('h, 'b, 'e, 'env) externals" and F :: "'s config_lib" and path :: string
    and Q :: "event list \<Rightarrow> ('s, 'env, ('h, 'b) rq_task) server \<Rightarrow> proxy_svc \<Rightarrow> ('h, 'b) rq_task \<Rightarrow> bool"
  assumes later: "Q es s svc tk \<Longrightarrow> server_step X F s e s' \<Longrightarrow> Q (e # es) s' svc tk"
    and started: "run X F path es s \<Longrightarrow> server_step X F s e s' \<Longrightarrow> Serving svc ts \<in> set (sv_sessions s)
          \<Longrightarrow> begin_request (x_http X) (svc_ctx svc) rq (svc_client_addr svc) (sv_world s) = Some (p, st, w)
          \<Longrightarrow> Q (e # es) s' svc (request_task rq (w_clock (sv_world s)) p st)"
    and resumed: "task_step X (svc_ctx svc) (svc_client_addr svc) tk w tk' w' \<Longrightarrow> Q es s svc tk \<Longrightarrow> Q es s svc tk'"
begin

lemma holds:
  assumes "run X F path es s" "Serving svc ts \<in> set (sv_sessions s)" "tk \<in> set ts"
  shows "Q es s svc tk"
proof -
  have "run X F path es s \<and> (\<forall>svc ts. Serving svc ts \<in> set (sv_sessions s) \<longrightarrow> (\<forall>tk \<in> set ts. Q es s svc tk))"
    using assms(1)
  proof (rule srv.trace_invariant)
    fix s :: "('s, 'env, ('h, 'b) rq_task) server"
    assume i: "\<exists>now env. start_server F path (fresh_world now env) = Some (Inr s)"
    then have "sv_sessions s = []" by (auto dest: start_server_state)
    with i show "run X F path [] s \<and> (\<forall>svc ts. Serving svc ts \<in> set (sv_sessions s) \<longrightarrow> (\<forall>tk \<in> set ts. Q [] s svc tk))"
      by (simp add: run_def)
  next
    fix es e and s s' :: "('s, 'env, ('h, 'b) rq_task) server"
    assume s: "run X F path es s \<and> (\<forall>svc ts. Serving svc ts \<in> set (sv_sessions s) \<longrightarrow> (\<forall>tk \<in> set ts. Q es s svc tk))"
      and step: "server_step X F s e s'"
    have "Q (e # es) s' svc tk" if "Serving svc ts \<in> set (sv_sessions s')" "tk \<in> set ts" for svc ts tk
      using step that
    proof (cases rule: step_tasks)
      case (old ts0)
      with s step show ?thesis by (blast intro: later)
    next
      case (fresh ts0 rq p st w)
      with s step show ?thesis using started by blast
    next
      case (moved ts0 tk0 w)
      with s step show ?thesis by (blast intro: later resumed)
    qed
    with srv.exec_step [OF conjunct1 [OF s] step]
    show "run X F path (e # es) s' \<and> (\<forall>svc ts. Serving svc ts \<in> set (sv_sessions s') \<longrightarrow> (\<forall>tk \<in> set ts. Q (e # es) s' svc tk))"
      by blast
  qed
  with assms(2,3) show ?thesis by blast
qed

end

section \<open>Properties\<close>

text \<open>C9. The server never takes on more than its limits allow. In every reachable state, under every
  interleaving of accepting, dispatching, serving, finishing, probing, reloading and shutting down, the queue
  holds at most the channel's capacity, the open sessions and the free permits add up to the connection
  limit, and the gauge of active connections is the number of open sessions. Both limits are those of the
  configuration the server was started with, whatever was reloaded since.\<close>

theorem server_capacity:
  assumes "run X F path es s" "load_file F path = Inr cfg"
  shows "length (sv_queue s) \<le> unat (channel_cap cfg)
         \<and> length (sv_sessions s) + sv_conn_permits s = unat (conn_limit cfg)
         \<and> sv_active_connections s = of_nat (length (sv_sessions s))"
  using run_inv [OF assms(1)] assms(2) by (auto simp: capacity_inv_def)



text \<open>Every session that serves requests enforces what its configuration says and knows its client: its
  context has the access list of a validated configuration whenever that configures one, a rate limiter
  and a request limit exactly when configured, a positive body limit and an idle timeout of at least a second;
  and its client address is the address of the peer unless the PROXY protocol is on, the peer is a
  trusted proxy (or none are listed) and the address was read from the peer's PROXY header.\<close>

theorem session_enforces_config:
  assumes "run X (F :: 's config_lib) path es s" "Serving svc ts \<in> set (sv_sessions s)"
  shows "\<exists>cfg (c :: accepted_conn) st. valid_config (cl_parse_uri F) cfg
           \<and> (case config.acl cfg of
                None \<Rightarrow> ctx_acl (svc_ctx svc) = None
              | Some a \<Rightarrow> \<exists>l. acl_from_config (acl_allow a) (acl_deny a) = Some l \<and> ctx_acl (svc_ctx svc) = Some l)
           \<and> (ctx_rate_limiter (svc_ctx svc) = None \<longleftrightarrow> rate_limit cfg = None)
           \<and> (ctx_request_limit (svc_ctx svc) = None \<longleftrightarrow> max_connections cfg = 0)
           \<and> ctx_max_body_bytes (svc_ctx svc) = max_body_bytes cfg \<and> 0 < ctx_max_body_bytes (svc_ctx svc)
           \<and> 10 ^ 9 \<le> ctx_idle_timeout (svc_ctx svc)
           \<and> (svc_client_addr svc = ac_remote c
              \<or> (proxy_protocol cfg
                 \<and> (proxy_protocol_trusted_cidrs cfg = []
                    \<or> (\<exists>l. acl_from_config (proxy_protocol_trusted_cidrs cfg) [] = Some l
                           \<and> is_allowed l (sa_ip (ac_remote c))))
                 \<and> (\<exists>h. maybe_read_proxy_header (ac_stream c) = Inr (Some h, st) \<and> svc_client_addr svc = src h)))"
proof -
  define ctx where "ctx = svc_ctx svc"
  obtain rt :: "'s runtime" and c st where rt: "runtime_ok (cl_parse_uri F) rt"
      "opened rt c (svc_client_addr svc) st ctx"
    using serving_runtime [OF assms] unfolding ctx_def by blast
  have idle: "10 ^ 9 \<le> session_idle cfg" for cfg
    using unat_max_one_pos [of "idle_secs (timeouts cfg)"]
    by (simp add: session_idle_def from_secs_def Suc_le_eq del: unat_max_one_pos)
  have ctx: "ctx = session_context rt" using open_session_address [OF rt] by blast
  have acl: "case config.acl (rt_config rt) of
                None \<Rightarrow> ctx_acl ctx = None
              | Some a \<Rightarrow> \<exists>l. acl_from_config (acl_allow a) (acl_deny a) = Some l \<and> ctx_acl ctx = Some l"
    using session_acl [OF rt(1)] by (auto simp: ctx session_context_def Let_def split: option.split)
  have limits: "ctx_rate_limiter ctx = None \<longleftrightarrow> rate_limit (rt_config rt) = None"
    "ctx_request_limit ctx = None \<longleftrightarrow> max_connections (rt_config rt) = 0"
    "ctx_max_body_bytes ctx = max_body_bytes (rt_config rt)" "10 ^ 9 \<le> ctx_idle_timeout ctx"
    using rt(1) idle by (simp_all add: ctx session_context_def runtime_ok_def Let_def)
  have valid: "valid_config (cl_parse_uri F) (rt_config rt)" "0 < ctx_max_body_bytes ctx"
    using rt(1) limits(3) by (simp_all add: runtime_ok_def valid_config_def Let_def)
  show ?thesis
    unfolding ctx_def [symmetric]
    using acl limits valid conjunct2 [OF open_session_address [OF rt]]
    by (intro exI [of _ "rt_config rt"] exI [of _ c] exI [of _ st]) simp
qed

section \<open>Witnesses\<close>

text \<open>A server with one upstream and an access list that has accepted and dispatched one connection.\<close>

definition lib_example :: "unit config_lib" where
  "lib_example =
     \<lparr>cl_read_to_string = (\<lambda>_. Some []), cl_from_yaml = (\<lambda>_. Some acl_example),
      cl_parse_uri = (\<lambda>_. Some \<lparr>scheme_str = Some ''http'', uri_host = Some ''a''\<rparr>),
      cl_file_exists = (\<lambda>_. True), cl_load_tls = (\<lambda>_ _. Inl CertOpenFailed), cl_native_roots = True,
      cl_bind = (\<lambda>_. True)\<rparr>"

definition conn_example :: accepted_conn where
  "conn_example = \<lparr>ac_stream = [Data ''GET /''], ac_remote = client_example\<rparr>"

lemma load_example: "load_file lib_example ''c'' = Inr acl_example"
  by (simp add: load_file_def lib_example_def from_file_def acl_example_def default_config_def validate_def
      validate_upstream_def bail_if_def default_health_check_def default_timeouts_def default_max_body_def
      validate_cidr_def parse_eval)

lemma example_sizes:
  "max_connections acl_example = 2" "tls acl_example = None" "proxy_protocol acl_example = False"
  "semaphore_new (conn_limit acl_example) = Some 64" "semaphore_new (channel_cap acl_example) = Some 256"
  "semaphore_new 2 = Some 2"
  by (simp_all add: acl_example_def default_config_def conn_limit_def channel_cap_def max_conn_def semaphore_new_def)

text \<open>The shared state after start-up: a balancer, a limiter and a semaphore.\<close>

definition started_example :: "unit world" where
  "started_example = (fresh_world 5 ())\<lparr>w_store := [lb_from_config acl_example], w_limiters := [limiter_1_2], w_permits := [2]\<rparr>"

type_synonym example_server = "(unit, unit, ((string \<times> string) list, unit) rq_task) server"

lemma start_example:
  "\<exists>s :: example_server. start_server lib_example ''c'' (fresh_world 5 ()) = Some (Inr s) \<and> sv_world s = started_example
       \<and> sv_queue s = [] \<and> sv_sessions s = []
       \<and> sv_phase s = Accepting \<and> sv_dispatching s \<and> sv_conn_permits s = 64 \<and> sv_channel_cap s = 256
       \<and> rt_config (sv_runtime s) = acl_example \<and> rt_tls (sv_runtime s) = None
       \<and> rt_rate_limiter (sv_runtime s) = Some 0 \<and> rt_request_limit (sv_runtime s) = Some 0
       \<and> rt_router (sv_runtime s) = \<lparr>router_routes = [], router_default = Some 0\<rparr>"
proof -
  have "routes acl_example = []" "upstreams acl_example \<noteq> []"
    "rate_limit acl_example = Some \<lparr>rps = 1, burst_factor = Fin 2\<rparr>"
    by (simp_all add: acl_example_def default_config_def)
  then show ?thesis
    by (simp add: start_server_def load_example runtime_from_config_def build_client_def
        lib_example_def [THEN arg_cong, of cl_native_roots] lib_example_def [THEN arg_cong, of cl_bind]
        example_sizes alloc_def router_from_config_def shift_router_def Let_def started_example_def fresh_world_def
        limiter_1_2_def limiter_config_def)
qed

text \<open>The state after a connection was accepted, dispatched and set up.\<close>

definition run_events :: "event list" where
  "run_events = [Handshake 0 True, Dispatched, Accepted]"

lemma run_example:
  "\<exists>s. run answering lib_example ''c'' run_events s
       \<and> sv_sessions s = [Serving \<lparr>svc_ctx = session_context (sv_runtime s), svc_client_addr = client_example\<rparr> []]
       \<and> sv_world s = started_example
       \<and> sv_queue s = [] \<and> sv_phase s = Accepting \<and> sv_dispatching s
       \<and> rt_config (sv_runtime s) = acl_example
       \<and> rt_rate_limiter (sv_runtime s) = Some 0 \<and> rt_request_limit (sv_runtime s) = Some 0
       \<and> rt_router (sv_runtime s) = \<lparr>router_routes = [], router_default = Some 0\<rparr>"
proof -
  obtain s :: example_server where s: "start_server lib_example ''c'' (fresh_world 5 ()) = Some (Inr s)" "sv_world s = started_example"
      "sv_queue s = []" "sv_sessions s = []" "sv_phase s = Accepting" "sv_dispatching s" "sv_conn_permits s = 64"
      "sv_channel_cap s = 256" "rt_config (sv_runtime s) = acl_example" "rt_tls (sv_runtime s) = None"
      "rt_rate_limiter (sv_runtime s) = Some 0" "rt_request_limit (sv_runtime s) = Some 0"
      "rt_router (sv_runtime s) = \<lparr>router_routes = [], router_default = Some 0\<rparr>"
    using start_example by blast
  let ?ctx = "session_context (sv_runtime s)"
  let ?s1 = "s\<lparr>sv_queue := sv_queue s @ [conn_example]\<rparr>"
  let ?s2 = "spawn_connection conn_example [] ?s1"
  let ?s3 = "?s2\<lparr>sv_sessions := (sv_sessions ?s2)[0 := serve_session True ?ctx client_example]\<rparr>"
  have o: "open_session (sv_runtime s) conn_example = Open client_example (prefixed_new [Data ''GET /''] []) ?ctx"
    by (simp add: open_session_def client_address_def s example_sizes conn_example_def)
  have "run answering lib_example ''c'' [] s" unfolding run_def using s(1) by auto
  then have "run answering lib_example ''c'' [Accepted] ?s1"
    by (rule srv.exec_step) (rule server_step.accept; simp add: s)
  then have "run answering lib_example ''c'' [Dispatched, Accepted] ?s2"
    by (rule srv.exec_step) (rule server_step.dispatch; simp add: s)
  then have r: "run answering lib_example ''c'' run_events ?s3"
    unfolding run_events_def
    by (rule srv.exec_step) (rule server_step.handshake [where st = "prefixed_new [Data ''GET /''] []"]; simp add: s o)
  have "\<not> ctx_client_is_tls ?ctx" by (simp add: session_context_def s Let_def)
  then show ?thesis
    by (intro exI [of _ ?s3] conjI r) (simp_all add: s serve_session_def connection_service_def)
qed

text \<open>A request on the session is let through and answered by the upstream.\<close>

lemma ctx_example_facts:
  assumes "rt_config rt = acl_example" "rt_rate_limiter rt = Some 0" "rt_request_limit rt = Some 0"
    "rt_router rt = \<lparr>router_routes = [], router_default = Some 0\<rparr>"
  defines "ctx \<equiv> session_context rt"
  shows "request_set (ctx_headers ctx) = []" "ctx_sticky ctx = None" "ctx_request_limit ctx = Some 0"
    "resolve (ctx_router ctx) ''/x'' = Some 0"
    "case ctx_acl ctx of None \<Rightarrow> True | Some a \<Rightarrow> is_allowed a (sa_ip client_example)"
    "ctx_rate_limiter ctx = Some 0"
proof -
  have acl: "acl_from_config [] [''10.0.0.0/8''] = Some \<lparr>allow = [], deny = [\<lparr>net_addr = V4 0x0A000000, net_prefix = 8\<rparr>]\<rparr>"
    by (simp add: acl_from_config_def parse_cidr_def parse_eval)
  have "is_allowed \<lparr>allow = [], deny = [\<lparr>net_addr = V4 0x0A000000, net_prefix = 8\<rparr>]\<rparr> (sa_ip client_example)"
    by code_simp
  then show "request_set (ctx_headers ctx) = []" "ctx_sticky ctx = None" "ctx_request_limit ctx = Some 0"
    "resolve (ctx_router ctx) ''/x'' = Some 0"
    "case ctx_acl ctx of None \<Rightarrow> True | Some a \<Rightarrow> is_allowed a (sa_ip client_example)"
    "ctx_rate_limiter ctx = Some 0"
    using acl by (simp_all add: assms session_context_def resolve_def acl_example_def default_config_def Let_def)
qed

lemma check_started:
  "\<exists>rl. check (w_limiters started_example ! 0) (w_clock started_example) (sa_ip client_example) = Some (True, rl)"
  using check_free_bucket [OF max_credit_1_2, of 5 "sa_ip client_example"]
  by (auto simp: emission_1_2 buckets_1_2 instant_max_def started_example_def fresh_world_def)

lemma choose_started:
  fixes w :: "unit world"
  assumes "w_store w = w_store started_example"
  shows "\<exists>w1. choose_upstream 0 None 0 [] w = (Some 0, w1) \<and> upstream_addr 0 0 w1 = ''http://a''"
  using assms by (simp add: choose_upstream_def with_lb_def select_sticky_def select_excluding_def
      eligible_def started_example_def from_upstreams_def upstream_runtime_new_def
      lb_from_config_def acl_example_def default_config_def upstream_addr_def lb_addr_def Let_def)

text \<open>The session of the example: its context admits the client.\<close>

lemma serving_example:
  "\<exists>s svc. run answering lib_example ''c'' run_events s \<and> sv_sessions s = [Serving svc []]
     \<and> svc_client_addr svc = client_example \<and> sv_world s = started_example \<and> sv_phase s = Accepting
     \<and> request_set (ctx_headers (svc_ctx svc)) = [] \<and> ctx_sticky (svc_ctx svc) = None
     \<and> ctx_request_limit (svc_ctx svc) = Some 0 \<and> resolve (ctx_router (svc_ctx svc)) ''/x'' = Some 0
     \<and> (case ctx_acl (svc_ctx svc) of None \<Rightarrow> True | Some a \<Rightarrow> is_allowed a (sa_ip client_example))
     \<and> ctx_rate_limiter (svc_ctx svc) = Some 0"
proof -
  obtain s where s: "run answering lib_example ''c'' run_events s"
      "sv_sessions s = [Serving \<lparr>svc_ctx = session_context (sv_runtime s), svc_client_addr = client_example\<rparr> []]"
      "sv_world s = started_example" "sv_phase s = Accepting" "rt_config (sv_runtime s) = acl_example"
      "rt_rate_limiter (sv_runtime s) = Some 0" "rt_request_limit (sv_runtime s) = Some 0"
      "rt_router (sv_runtime s) = \<lparr>router_routes = [], router_default = Some 0\<rparr>"
    using run_example by metis
  show ?thesis
    by (rule exI [of _ s], rule exI [of _ "\<lparr>svc_ctx = session_context (sv_runtime s), svc_client_addr = client_example\<rparr>"])
      (simp add: s(1-4) ctx_example_facts [OF s(5-8)])
qed

text \<open>A request takes a permit and waits for its body.\<close>

lemma request_example:
  "\<exists>s svc w'. run answering lib_example ''c'' run_events s \<and> sv_sessions s = [Serving svc []]
     \<and> svc_client_addr svc = client_example \<and> ctx_rate_limiter (svc_ctx svc) = Some 0
     \<and> ctx_request_limit (svc_ctx svc) = Some 0 \<and> request_set (ctx_headers (svc_ctx svc)) = []
     \<and> sv_phase s = Accepting \<and> w_store w' = w_store started_example
     \<and> begin_request (x_http answering) (svc_ctx svc) rq_example (svc_client_addr svc) (sv_world s)
         = Some (Some 0, AwaitBody 0 None, w')"
proof -
  obtain s svc where s: "run answering lib_example ''c'' run_events s" "sv_sessions s = [Serving svc []]"
      "svc_client_addr svc = client_example" "sv_world s = started_example" "sv_phase s = Accepting"
    and ctx: "request_set (ctx_headers (svc_ctx svc)) = []" "ctx_sticky (svc_ctx svc) = None"
      "ctx_request_limit (svc_ctx svc) = Some 0" "resolve (ctx_router (svc_ctx svc)) ''/x'' = Some 0"
      "case ctx_acl (svc_ctx svc) of None \<Rightarrow> True | Some a \<Rightarrow> is_allowed a (sa_ip client_example)"
      "ctx_rate_limiter (svc_ctx svc) = Some 0"
    using serving_example by metis
  obtain rl where rl: "check (w_limiters started_example ! 0) (w_clock started_example) (sa_ip client_example) = Some (True, rl)"
    using check_started by blast
  have rq: "\<not> is_upgrade_request (x_http answering) rq_example" "rq_path rq_example = ''/x''"
    by (simp_all add: is_upgrade_request_def answering_def alist_http_def rq_example_def)
  have "w_permits started_example ! 0 \<noteq> 0" by (simp add: started_example_def)
  then have "\<exists>w'. begin_request (x_http answering) (svc_ctx svc) rq_example client_example started_example
         = Some (Some 0, AwaitBody 0 None, w') \<and> w_store w' = w_store started_example"
    using ctx rl rq by (auto simp: begin_request_def begin_admitted_def check_limiter_def upd_metrics_def Let_def split: option.splits)
  with s ctx show ?thesis by auto
qed

theorem server_capacity_witness:
  "\<exists>s. run answering lib_example ''c'' run_events s \<and> length (sv_sessions s) = 1
       \<and> sv_conn_permits s = 63 \<and> sv_active_connections s = 1"
proof -
  obtain s where s: "run answering lib_example ''c'' run_events s" "length (sv_sessions s) = 1"
    using run_example by fastforce
  have "unat (conn_limit acl_example) = 64"
    using semaphore_new_Some [OF example_sizes(4)] by simp
  with server_capacity [OF s(1) load_example] s show ?thesis by auto
qed



theorem session_enforces_config_witness:
  "\<exists>s svc ts cfg. run answering lib_example ''c'' run_events s
       \<and> Serving svc ts \<in> set (sv_sessions s)
       \<and> valid_config (cl_parse_uri lib_example) cfg \<and> ctx_max_body_bytes (svc_ctx svc) = max_body_bytes cfg
       \<and> 10 ^ 9 \<le> ctx_idle_timeout (svc_ctx svc)"
proof -
  obtain s svc where s: "run answering lib_example ''c'' run_events s" "Serving svc [] \<in> set (sv_sessions s)"
    using run_example by (metis list.set_intros(1))
  from session_enforces_config [OF this] obtain cfg where "valid_config (cl_parse_uri lib_example) cfg"
      "ctx_max_body_bytes (svc_ctx svc) = max_body_bytes cfg" "10 ^ 9 \<le> ctx_idle_timeout (svc_ctx svc)"
    by blast
  with s show ?thesis by blast
qed

end
