(* ===== verification/Lifecycle.thy ===== *)
theory Lifecycle
  imports Server
begin

text \<open>
  How the server of \<open>src/main.rs\<close> ends: that a shutdown always completes and how much work is left to it,
  what the grace period guarantees and when it is skipped, and that the admin listener does not recover.
\<close>

section \<open>The end of the process\<close>

lemma Terminated_final:
  assumes "server_step X F s e s'" "sv_phase s = Terminated" "\<not> sv_dispatching s" "sv_sessions s = []"
    "\<not> sv_admin_listening s"
  shows False
  using assms by (cases rule: server_step.cases) auto

definition ended_inv :: "('s, 'env, 'k) server \<Rightarrow> bool" where
  "ended_inv s \<longleftrightarrow>
     (sv_phase s = Terminated \<longrightarrow> \<not> sv_dispatching s \<and> sv_sessions s = [] \<and> \<not> sv_admin_listening s)"

lemma step_ended:
  assumes "server_step X F s e s'" "ended_inv s"
  shows "ended_inv s'"
proof (cases "sv_phase s = Terminated")
  case True
  then show ?thesis using Terminated_final [OF assms(1)] assms(2) by (auto simp: ended_inv_def)
next
  case False
  have "sv_phase s' = Terminated \<Longrightarrow> \<exists>q n. e = Exited q n"
    using assms(1) False by (cases rule: server_step.cases) (auto simp: reload_fields)
  moreover have "ended_inv s'" if "e = Exited q n" for q n
    using assms(1) that by (cases rule: server_step.cases) (auto simp: ended_inv_def)
  ultimately show ?thesis by (auto simp: ended_inv_def)
qed

lemma start_ended: "start_server F path w = Some (Inr s) \<Longrightarrow> ended_inv s"
  by (drule start_server_state) (auto simp: ended_inv_def)

lemma run_ended_inv: "run X F path es s \<Longrightarrow> ended_inv s"
  by (erule srv.invariant) (auto intro: start_ended step_ended)

lemma run_ended:
  assumes "run X F path es s" "sv_phase s = Terminated"
  shows "\<not> server_step X F s e s'"
  using run_ended_inv [OF assms(1)] Terminated_final assms(2) unfolding ended_inv_def by blast

section \<open>The work that is left\<close>

fun session_work :: "'k session \<Rightarrow> nat" where
  "session_work (Open addr st ctx) = 2"
| "session_work _ = 1"

definition work :: "('s, 'env, 'k) server \<Rightarrow> nat" where
  "work s = 3 * length (sv_queue s) + sum_list (map session_work (sv_sessions s))
            + (if sv_dispatching s then 1 else 0) + (if sv_phase s = Terminated then 0 else 1)"

text \<open>The events that handle a connection or end a task.\<close>

fun progress :: "event \<Rightarrow> nat" where
  "progress Dispatched = 1"
| "progress DispatchShed = 1"
| "progress (DispatchStopped n) = 1"
| "progress (Handshake i ok) = 1"
| "progress (Finished i us) = 1"
| "progress (Exited q n) = 1"
| "progress _ = 0"

lemma session_work_bounds: "1 \<le> session_work x" "session_work x \<le> 2"
  by (cases x; simp)+

lemma sum_session_work_le: "sum_list (map session_work xs) \<le> 2 * length xs"
proof (induction xs)
  case (Cons x xs)
  then show ?case using session_work_bounds(2) [of x] by simp
qed simp

lemma sum_list_split_nth:
  assumes "i < length xs"
  shows "sum_list (map f xs)
         = sum_list (map f (take i xs)) + (f (xs ! i) :: nat) + sum_list (map f (drop (Suc i) xs))"
  using arg_cong [OF id_take_nth_drop [OF assms], of "\<lambda>xs. sum_list (map f xs)"] by simp

lemma sum_list_update_less:
  assumes "i < length xs" "f y + 1 = (f (xs ! i) :: nat)"
  shows "sum_list (map f (xs[i := y])) + 1 = sum_list (map f xs)"
  using sum_list_split_nth [OF assms(1), of f] assms by (simp add: upd_conv_take_nth_drop)

lemma sum_list_update_eq:
  assumes "i < length xs" "f y = (f (xs ! i) :: nat)"
  shows "sum_list (map f (xs[i := y])) = sum_list (map f xs)"
  using sum_list_split_nth [OF assms(1), of f] assms by (simp add: upd_conv_take_nth_drop)

lemma sum_list_remove_nth:
  assumes "i < length xs"
  shows "sum_list (map f (remove_nth i xs)) + (f (xs ! i) :: nat) = sum_list (map f xs)"
  using sum_list_split_nth [OF assms, of f] by (simp add: remove_nth_def)

lemma session_work_serve: "session_work (serve_session ok ctx addr) = 1"
  by (simp add: serve_session_def split: option.split)

lemma session_work_open: "session_work (open_session rt c) \<le> 2"
  by (rule session_work_bounds)

lemma step_work:
  assumes "server_step X F s e s'" "sv_phase s \<noteq> Accepting"
  shows "sv_phase s' \<noteq> Accepting \<and> work s' + progress e \<le> work s"
  using assms
proof (cases rule: server_step.cases)
  case (handshake i addr st ctx ok)
  then have "sum_list (map session_work ((sv_sessions s)[i := serve_session ok ctx addr])) + 1
      = sum_list (map session_work (sv_sessions s))"
    by (intro sum_list_update_less) (simp_all add: session_work_serve)
  with handshake assms(2) show ?thesis by (simp add: work_def)
next
  case (finish i)
  then show ?thesis
    using assms(2) sum_list_remove_nth [of i "sv_sessions s" session_work] session_work_bounds(1) [of "sv_sessions s ! i"]
    by (simp add: work_def)
next
  case (dispatch c q)
  then show ?thesis using assms(2) session_work_open [of "sv_runtime s" c] by (simp add: work_def)
next
  case (sighup rd ex ld nr path)
  then show ?thesis using assms(2) by (simp add: work_def reload_fields [OF sighup(3)])
qed (auto simp: work_def sum_list_update_eq)

lemma steps_work:
  assumes "steps (server_step X F) s es s'" "sv_phase s \<noteq> Accepting"
  shows "sum_list (map progress es) \<le> 3 * length (sv_queue s) + 2 * length (sv_sessions s) + 2"
proof -
  have "work s' + sum_list (map progress es) \<le> work s"
    using steps_variant [OF assms(1), where I = "\<lambda>s. sv_phase s \<noteq> Accepting" and m = work and weight = progress]
      assms(2) step_work by blast
  then show ?thesis using sum_session_work_le [of "sv_sessions s"] by (simp add: work_def split: if_splits)
qed

section \<open>A shutdown completes\<close>

lemma exit_possible:
  assumes "sv_phase s = Closing \<or> (\<exists>t \<le> w_clock (sv_world s). sv_phase s = Draining t)"
  shows "\<exists>q n s'. server_step X F s (Exited q n) s' \<and> sv_phase s' = Terminated"
  using server_step.exit [OF assms] by (intro exI conjI, assumption) simp

lemma drain_possible:
  assumes "sv_phase s = Draining t"
  shows "\<exists>es s'. length es \<le> 2 \<and> steps (server_step X F) s es s' \<and> sv_phase s' = Terminated"
proof -
  let ?s = "s\<lparr>sv_world := (sv_world s)\<lparr>w_clock := max t (w_clock (sv_world s))\<rparr>\<rparr>"
  have "server_step X F s Ticked ?s" by (rule server_step.tick) (simp_all add: assms)
  moreover obtain q n s' where "server_step X F ?s (Exited q n) s'" "sv_phase s' = Terminated"
    using exit_possible [of ?s X F] assms by auto
  ultimately have "steps (server_step X F) s [Exited q n, Ticked] s'"
    by (auto simp: steps_Cons)
  with \<open>sv_phase s' = Terminated\<close> show ?thesis by (intro exI [of _ "[Exited q n, Ticked]"]) auto
qed

lemma shutdown_possible:
  assumes "sv_shutdown s"
  shows "\<exists>es s'. length es \<le> 3 \<and> steps (server_step X F) s es s' \<and> sv_phase s' = Terminated"
proof (cases "sv_phase s")
  case Accepting
  let ?s = "stop_accepting s"
  have "server_step X F s AcceptStopped ?s" by (rule server_step.accept_stop) (simp_all add: assms Accepting)
  then have "steps (server_step X F) s [AcceptStopped] ?s" by (simp add: steps_Cons)
  moreover obtain es s' where es: "length es \<le> 2" "steps (server_step X F) ?s es s'" "sv_phase s' = Terminated"
    using drain_possible [of ?s _ X F] by auto
  ultimately have "steps (server_step X F) s (es @ [AcceptStopped]) s'"
    by (auto simp: steps_append)
  with es show ?thesis by (intro exI [of _ "es @ [AcceptStopped]"] exI [of _ s']) simp
next
  case (Draining t)
  then show ?thesis using drain_possible [of s t X F] by force
next
  case Closing
  then obtain q n s' where "server_step X F s (Exited q n) s'" "sv_phase s' = Terminated"
    using exit_possible [of s X F] by blast
  then show ?thesis by (intro exI [of _ "[Exited q n]"] exI [of _ s']) (auto simp: steps_Cons)
qed (auto intro!: exI [of _ "[]"])

section \<open>The grace period\<close>

lemma draining_steps:
  assumes "steps (server_step X F) s es s'" "sv_phase s = Draining t"
  shows "sv_phase s' = Draining t \<or> sv_phase s' = Terminated"
  using assms(1)
proof (rule steps_induct_inv [where P = "\<lambda>_ s. sv_phase s = Draining t \<or> sv_phase s = Terminated"])
  fix s e s'
  assume "sv_phase s = Draining t \<or> sv_phase s = Terminated" "server_step X F s e s'"
  from this(2,1) show "sv_phase s' = Draining t \<or> sv_phase s' = Terminated"
    by (cases rule: server_step.cases) (auto simp: reload_fields)
qed (simp add: assms(2))

lemma listening_steps:
  assumes "steps (server_step X F) s es s'" "\<not> sv_admin_listening s"
  shows "\<not> sv_admin_listening s' \<and> AdminAccepted \<notin> set es"
  using assms(1)
proof (rule steps_induct_inv [where P = "\<lambda>es s. \<not> sv_admin_listening s \<and> AdminAccepted \<notin> set es"])
  fix es s e s'
  assume "\<not> sv_admin_listening s \<and> AdminAccepted \<notin> set es" "server_step X F s e s'"
  from this(2,1) show "\<not> sv_admin_listening s' \<and> AdminAccepted \<notin> set (e # es)"
    by (cases rule: server_step.cases) (auto simp: reload_fields)
qed (simp add: assms(2))

section \<open>Properties\<close>


text \<open>The grace period holds on the path the code means to take: after the accept loop has seen the
  shutdown, the process ends at least five seconds later.\<close>

theorem grace_period_kept:
  assumes "server_step X F s AcceptStopped s1" "steps (server_step X F) s1 es s2"
    and "server_step X F s2 (Exited q n) s3"
  shows "w_clock (sv_world s) + from_secs 5 \<le> w_clock (sv_world s2)"
proof -
  have "sv_phase s1 = Draining (w_clock (sv_world s) + from_secs 5)"
    using assms(1) by (cases rule: server_step.cases) auto
  from draining_steps [OF assms(2) this] assms(3) show ?thesis
    by (auto elim: server_step.cases)
qed

text \<open>The admin listener does not recover: after an error of \<open>accept\<close> no admin connection is
  accepted any more, whatever is reloaded.\<close>

theorem admin_listener_final:
  assumes "server_step X F s AdminFailed s1" "steps (server_step X F) s1 es s2"
  shows "AdminAccepted \<notin> set es"
proof -
  have "\<not> sv_admin_listening s1" using assms(1) by (cases rule: server_step.cases) auto
  from listening_steps [OF assms(2) this] show ?thesis by blast
qed

text \<open>The grace period can be skipped: when the dispatcher sees the signal before the accept loop does and a
  connection arrives, the accept loop finds the channel closed and \<open>main\<close> returns at once, with a
  connection still being served.\<close>

theorem grace_period_skipped:
  "\<exists>s s'. run answering lib_example ''c'' run_events s \<and> length (sv_sessions s) = 1
      \<and> steps (server_step answering lib_example) s [Exited 0 1, AcceptClosed, DispatchStopped 0, Signalled] s'
      \<and> sv_phase s' = Terminated \<and> w_clock (sv_world s') = w_clock (sv_world s)"
proof -
  obtain s where s: "run answering lib_example ''c'' run_events s" "length (sv_sessions s) = 1" "sv_queue s = []"
      "sv_phase s = Accepting" "sv_dispatching s"
    using run_example by fastforce
  let ?step = "server_step answering lib_example"
  let ?s1 = "shutdown_signal s"
  let ?s2 = "?s1\<lparr>sv_queue := [], sv_dispatching := False\<rparr>"
  let ?s3 = "?s2\<lparr>sv_phase := Closing\<rparr>"
  let ?s4 = "exit_process ?s3"
  have "?step s Signalled ?s1" by (rule server_step.signal) (simp add: s)
  moreover have "?step ?s1 (DispatchStopped 0) ?s2"
    using server_step.dispatch_stop [of ?s1 answering lib_example] s by simp
  moreover have "?step ?s2 AcceptClosed ?s3" by (rule server_step.accept_closed) (simp_all add: s)
  moreover have "?step ?s3 (Exited 0 1) ?s4"
    using server_step.exit [of ?s3 answering lib_example] s(2) by simp
  ultimately have "steps ?step s [Exited 0 1, AcceptClosed, DispatchStopped 0, Signalled] ?s4"
    by (meson steps.none steps.more)
  with s(1,2) show ?thesis by (intro exI [of _ s] exI [of _ ?s4]) simp
qed

section \<open>Witnesses\<close>


end
