(* ===== verification/Admission.thy ===== *)
theory Admission
  imports Server
begin

text \<open>
  The admission of a request in \<open>proxy_request\<close> of \<open>src/proxy/handler.rs\<close> seen from the running server:
  every request on its way to an upstream, or with an upstream's answer, was let through by all the
  checks when it started.
\<close>

section \<open>The start of a task\<close>

text \<open>The requests that went past admission: they wait, or their answer comes from an upstream.\<close>

definition passed :: "('h, 'b) rq_state \<Rightarrow> bool" where
  "passed st =
     (case st of Answered r \<Rightarrow> (case rs_body r of Streamed b \<Rightarrow> True | Full t \<Rightarrow> False) | _ \<Rightarrow> True)"

lemma begun_waiting:
  assumes "begin_request L ctx rq remote w = Some (p, st, w')" "passed st"
  shows "waiting st"
  using begin_request_answer [of L ctx rq remote w p _ w'] assms
  by (cases st) (auto simp: passed_def waiting_def)

lemma waiting_admitted:
  assumes "begin_request L ctx rq remote w = Some (p, st, w')" "waiting st"
  shows "(case ctx_acl ctx of None \<Rightarrow> True | Some a \<Rightarrow> is_allowed a (sa_ip remote))
         \<and> (case ctx_rate_limiter ctx of None \<Rightarrow> True
            | Some k \<Rightarrow> \<exists>rl. check (w_limiters w ! k) (w_clock w) (sa_ip remote) = Some (True, rl))
         \<and> (case ctx_request_limit ctx of None \<Rightarrow> True | Some k \<Rightarrow> 0 < w_permits w ! k)"
proof -
  have "(case ctx_acl ctx of None \<Rightarrow> True | Some a \<Rightarrow> is_allowed a (sa_ip remote))
         \<and> (case ctx_rate_limiter ctx of None \<Rightarrow> True
            | Some k \<Rightarrow> \<exists>rl. check (w_limiters w1 ! k) (w_clock w1) (sa_ip remote) = Some (True, rl))"
    if "begin_admitted L ctx rq remote w1 = Some (st, w')" for w1
    using that assms(2)
    by (auto simp: begin_admitted_def check_limiter_def waiting_def Let_def split: if_splits option.splits prod.splits)
  then show ?thesis
    using assms by (fastforce simp: begin_request_def waiting_def split: if_splits option.splits)
qed

text \<open>The state of the server in which a task was started.\<close>

definition begun ::
  "('h, 'b, 'e, 'env) externals \<Rightarrow> 's config_lib \<Rightarrow> string \<Rightarrow> event list \<Rightarrow> ('s, 'env, ('h, 'b) rq_task) server
     \<Rightarrow> proxy_svc \<Rightarrow> ('h, 'b) rq_task \<Rightarrow> bool" where
  "begun X F path es s svc tk \<longleftrightarrow>
     (passed (tk_state tk) \<longrightarrow>
        (\<exists>es1 es2 s1 st w. es = es2 @ es1 \<and> run X F path es1 s1 \<and> steps (server_step X F) s1 es2 s
           \<and> w_clock (sv_world s1) = tk_start tk
           \<and> begin_request (x_http X) (svc_ctx svc) (tk_request tk) (svc_client_addr svc) (sv_world s1)
               = Some (tk_permit tk, st, w)
           \<and> waiting st))"

interpretation org: task_inv X F path "begun X F path"
  for X :: "('h, 'b, 'e, 'env) externals" and F :: "'s config_lib" and path
proof unfold_locales
  fix es e svc tk and s s' :: "('s, 'env, ('h, 'b) rq_task) server"
  assume "begun X F path es s svc tk" "server_step X F s e s'"
  then show "begun X F path (e # es) s' svc tk"
    unfolding begun_def by (metis append_Cons steps.more)
next
  fix es e p st w and rq :: "('h, 'b) request" and svc :: proxy_svc and ts :: "('h, 'b) rq_task list" and s s' :: "('s, 'env, ('h, 'b) rq_task) server"
  assume "run X F path es s" "server_step X F s e s'"
    and "Serving svc ts \<in> set (sv_sessions s)" "begin_request (x_http X) (svc_ctx svc) rq (svc_client_addr svc) (sv_world s) = Some (p, st, w)"
  then show "begun X F path (e # es) s' svc (request_task rq (w_clock (sv_world s)) p st)"
    unfolding begun_def request_task_def using begun_waiting
    by (intro impI exI [of _ es] exI [of _ "[e]"] exI [of _ s] exI [of _ st] exI [of _ w]) (auto simp: steps_Cons)
next
  fix svc :: proxy_svc and w w' es and tk tk' :: "('h, 'b) rq_task" and s :: "('s, 'env, ('h, 'b) rq_task) server"
  assume "task_step X (svc_ctx svc) (svc_client_addr svc) tk w tk' w'" "begun X F path es s svc tk"
  then show "begun X F path es s svc tk'"
    by (cases rule: task_step.cases) (simp_all add: begun_def passed_def)
qed

end
