(* ===== verification/Traffic.thy ===== *)
theory Traffic
  imports Server
begin

text \<open>
  The rate limit for the server as a whole: sessions share limiters, requests overlap, and a reload brings
  in new limiters. \<open>limited\<close> says how a piece of an execution has used a limiter; every step of every task
  is shown to satisfy it, and the pieces compose.
\<close>

section \<open>What a request does to the shared state\<close>

lemma upd_frame [simp]:
  "w_limiters (upd_metrics f w) = w_limiters w" "w_clock (upd_metrics f w) = w_clock w"
  "w_limiters (upd_upstream l i g w) = w_limiters w" "w_clock (upd_upstream l i g w) = w_clock w"
  "w_limiters (record_response m st a t w) = w_limiters w" "w_clock (record_response m st a t w) = w_clock w"
  "w_limiters (release_permit k w) = w_limiters w" "w_clock (release_permit k w) = w_clock w"
  "w_limiters (enter_upstream a l i w) = w_limiters w" "w_clock (enter_upstream a l i w) = w_clock w"
  "w_limiters (leave_upstream a l i w) = w_limiters w" "w_clock (leave_upstream a l i w) = w_clock w"
  "w_limiters (drop_permit p w) = w_limiters w" "w_clock (drop_permit p w) = w_clock w"
  by (simp_all add: upd_metrics_def upd_upstream_def record_response_def release_permit_def enter_upstream_def
      leave_upstream_def drop_permit_def Let_def split: option.split)

lemma drop_tasks_frame [simp]:
  "w_limiters (drop_tasks ts w) = w_limiters w" "w_clock (drop_tasks ts w) = w_clock w"
  by (induction ts arbitrary: w) (simp_all add: drop_tasks_def)

text \<open>The limiters and the clock are as they were.\<close>

definition unlimited :: "'env world \<Rightarrow> 'env world \<Rightarrow> bool" where
  "unlimited w w' \<longleftrightarrow> w_limiters w' = w_limiters w \<and> w_clock w' = w_clock w"

interpretation unl: task_frame unlimited
  by unfold_locales (auto simp: unlimited_def)

text \<open>A request checks its limiter at most once, when it starts; one that goes on was allowed.\<close>

definition checked_once ::
  "proxy_context \<Rightarrow> ip_addr \<Rightarrow> 'env world \<Rightarrow> ('h, 'b) rq_state \<Rightarrow> 'env world \<Rightarrow> bool" where
  "checked_once ctx ip w st w' \<longleftrightarrow>
     (unlimited w w' \<and> (waiting st \<longrightarrow> ctx_rate_limiter ctx = None))
     \<or> (\<exists>k ok rl. ctx_rate_limiter ctx = Some k \<and> check (w_limiters w ! k) (w_clock w) ip = Some (ok, rl)
          \<and> (waiting st \<longrightarrow> ok) \<and> unlimited (w\<lparr>w_limiters := (w_limiters w)[k := rl]\<rparr>) w')"

lemma begin_admitted_checked:
  fixes w :: "'env world"
  assumes "begin_admitted L ctx rq remote w = Some (st, w')"
  shows "checked_once ctx (sa_ip remote) w st w'"
proof -
  define routed where "routed = (\<lambda>w :: 'env world. case resolve (ctx_router ctx) (rq_path rq) of
       None \<Rightarrow> answered (reject L (rq_method rq) 404 ''No route matched'' w)
     | Some l \<Rightarrow>
         (let sticky_val = Option.bind (ctx_sticky ctx) (\<lambda>s. extract_cookie L (rq_headers rq) (cookie_name s))
          in if is_upgrade_request L rq then begin_upgrade L ctx rq remote l w else Some (AwaitBody l sticky_val, w)))"
  have routed: "unlimited w1 w2" if "routed w1 = Some (st, w2)" for w1 w2
    using that unl.upgraded [of L ctx rq remote _ w1 st w2]
    by (auto simp: routed_def unlimited_def Let_def split: option.splits if_splits dest!: unl.rejected)
  have eq: "begin_admitted L ctx rq remote w =
      (if (case ctx_acl ctx of Some a \<Rightarrow> \<not> is_allowed a (sa_ip remote) | None \<Rightarrow> False)
       then answered (reject L (rq_method rq) 403 ''Forbidden'' w)
       else (case ctx_rate_limiter ctx of
               None \<Rightarrow> routed w
             | Some k \<Rightarrow>
                 (case check_limiter k (sa_ip remote) w of
                    None \<Rightarrow> None
                  | Some (ok, w) \<Rightarrow>
                      if \<not> ok
                      then answered (reject L (rq_method rq) 429 ''Too Many Requests''
                             (upd_metrics (\<lambda>m. m\<lparr>rate_limit_rejects := rate_limit_rejects m + 1\<rparr>) w))
                      else routed (upd_metrics (\<lambda>m. m\<lparr>rate_limit_allows := rate_limit_allows m + 1\<rparr>) w))))"
    unfolding begin_admitted_def routed_def Let_def by (rule refl)
  show ?thesis
    using assms unfolding eq
    by (auto simp: check_limiter_def checked_once_def waiting_def unlimited_def split: if_splits option.splits
        dest!: unl.rejected routed)
qed

lemma begin_request_checked:
  assumes "begin_request L ctx rq remote w = Some (p, st, w')"
  shows "checked_once ctx (sa_ip remote) w st w'"
proof -
  have permit: "checked_once ctx ip w st w'" if "checked_once ctx ip (w\<lparr>w_permits := ps\<rparr>) st w'" for ip ps
    using that by (auto simp: checked_once_def unlimited_def)
  show ?thesis
    using assms
    by (auto simp: begin_request_def split: option.splits if_splits intro: begin_admitted_checked
        permit [OF begin_admitted_checked])
      (auto simp: checked_once_def waiting_def dest!: unl.rejected)
qed

section \<open>How an execution uses a limiter\<close>

text \<open>
  Between two worlds the clock has not gone back and no limiter was removed; limiter \<open>k\<close> was used by calls
  at times in between, and allowed at least \<open>n\<close> of those for \<open>ip\<close>.
\<close>

definition limited :: "nat \<Rightarrow> ip_addr \<Rightarrow> nat \<Rightarrow> 'env world \<Rightarrow> 'env world \<Rightarrow> bool" where
  "limited k ip n w w' \<longleftrightarrow>
     w_clock w \<le> w_clock w' \<and> length (w_limiters w) \<le> length (w_limiters w')
     \<and> (k < length (w_limiters w) \<longrightarrow>
          (\<exists>calls oks. check_all (w_limiters w ! k) calls = Some (oks, w_limiters w' ! k)
             \<and> (\<forall>(t, i) \<in> set calls. w_clock w \<le> t \<and> t \<le> w_clock w') \<and> n \<le> allowed_for ip calls oks))"

lemma check_all_append:
  assumes "check_all rl es = Some (oks, rl1)" "check_all rl1 es' = Some (oks', rl2)"
  shows "check_all rl (es @ es') = Some (oks @ oks', rl2)" and "length oks = length es"
    and "allowed_for ip (es @ es') (oks @ oks') = allowed_for ip es oks + allowed_for ip es' oks'"
proof -
  show len: "length oks = length es"
    using assms(1) by (induction es arbitrary: rl oks) (auto elim!: check_all_Cons)
  show "check_all rl (es @ es') = Some (oks @ oks', rl2)"
    using assms by (induction es arbitrary: rl oks) (auto split: option.splits)
  show "allowed_for ip (es @ es') (oks @ oks') = allowed_for ip es oks + allowed_for ip es' oks'"
    using len by (simp add: allowed_for_def)
qed

lemma check_all_fields:
  assumes "check_all rl es = Some (oks, rl')"
  shows "rl_cfg rl' = rl_cfg rl \<and> emission rl' = emission rl \<and> max_credit rl' = max_credit rl"
  using assms
proof (induction es arbitrary: rl oks)
  case (Cons e es)
  obtain t i where e: "e = (t, i)" by force
  obtain ok rl1 oks1 where "check rl t i = Some (ok, rl1)" "check_all rl1 es = Some (oks1, rl')"
    using Cons.prems unfolding e by (rule check_all_Cons)
  with Cons.IH check_fields show ?case by metis
qed simp

lemma limited_unused:
  assumes "w_clock w \<le> w_clock w'" "take (length (w_limiters w)) (w_limiters w') = w_limiters w"
  shows "limited k ip 0 w w'"
proof -
  have "length (w_limiters w) \<le> length (w_limiters w')"
    using arg_cong [OF assms(2), of length] by simp
  moreover have "w_limiters w' ! k = w_limiters w ! k" if "k < length (w_limiters w)"
    using assms(2) that by (metis nth_take)
  ultimately show ?thesis
    using assms(1) by (auto simp: limited_def intro!: exI [of _ "[]"])
qed

lemma limited_trans:
  assumes "limited k ip n w1 w2" "limited k ip m w2 w3"
  shows "limited k ip (n + m) w1 w3"
proof (cases "k < length (w_limiters w1)")
  case True
  with assms obtain es oks es' oks' where
      c: "check_all (w_limiters w1 ! k) es = Some (oks, w_limiters w2 ! k)"
        "check_all (w_limiters w2 ! k) es' = Some (oks', w_limiters w3 ! k)"
      and n: "n \<le> allowed_for ip es oks" "m \<le> allowed_for ip es' oks'"
      and t: "\<forall>(t, i) \<in> set es. w_clock w1 \<le> t \<and> t \<le> w_clock w2"
        "\<forall>(t, i) \<in> set es'. w_clock w2 \<le> t \<and> t \<le> w_clock w3"
      and w: "w_clock w1 \<le> w_clock w2" "w_clock w2 \<le> w_clock w3"
        "length (w_limiters w1) \<le> length (w_limiters w2)" "length (w_limiters w2) \<le> length (w_limiters w3)"
    unfolding limited_def by auto
  note app = check_all_append [OF c]
  have "\<forall>(t, i) \<in> set (es @ es'). w_clock w1 \<le> t \<and> t \<le> w_clock w3"
    using t w by fastforce
  moreover have "n + m \<le> allowed_for ip (es @ es') (oks @ oks')" using n app(3) by simp
  ultimately show ?thesis
    using w app(1) unfolding limited_def by (meson order_trans)
qed (use assms in \<open>auto simp: limited_def\<close>)

lemma limited_check:
  assumes "check (w_limiters w ! k) (w_clock w) ip = Some (ok, rl)"
  shows "limited k' ip' (if k' = k \<and> ip' = ip \<and> ok then 1 else 0) w (w\<lparr>w_limiters := (w_limiters w)[k := rl]\<rparr>)"
proof (cases "k' = k")
  case True
  then show ?thesis
    using assms by (auto simp: limited_def intro!: exI [of _ "[(w_clock w, ip)]"] exI [of _ "[ok]"])
qed (auto simp: limited_def intro!: exI [of _ "[]"])

lemma unlimited_limited: "unlimited w w' \<Longrightarrow> limited k ip 0 w w'"
  by (simp add: unlimited_def limited_unused)

section \<open>Steps of the server\<close>

text \<open>The requests of a client behind limiter \<open>k\<close> that were let through.\<close>

fun forwarded_by :: "nat \<Rightarrow> ip_addr \<Rightarrow> event \<Rightarrow> nat" where
  "forwarded_by k ip (Requested i d) = (if sd_limiter d = Some k \<and> sd_ip d = ip \<and> sd_forwarded d then 1 else 0)"
| "forwarded_by k ip _ = 0"

definition forwarded :: "nat \<Rightarrow> ip_addr \<Rightarrow> event list \<Rightarrow> nat" where
  "forwarded k ip es = sum_list (map (forwarded_by k ip) es)"

lemma request_limited:
  assumes "begin_request L (svc_ctx svc) rq (svc_client_addr svc) w = Some (p, st, w')"
  shows "limited k ip (forwarded_by k ip (Requested i (served_log svc w st))) w w'"
proof -
  let ?ctx = "svc_ctx svc" and ?ip = "sa_ip (svc_client_addr svc)"
  consider "unlimited w w'" "waiting st \<longrightarrow> ctx_rate_limiter ?ctx = None"
    | k' ok rl where "ctx_rate_limiter ?ctx = Some k'" "check (w_limiters w ! k') (w_clock w) ?ip = Some (ok, rl)"
        "waiting st \<longrightarrow> ok" "unlimited (w\<lparr>w_limiters := (w_limiters w)[k' := rl]\<rparr>) w'"
    using begin_request_checked [OF assms] unfolding checked_once_def by blast
  then show ?thesis
  proof cases
    case 1
    with unlimited_limited [OF 1(1)] show ?thesis by (auto simp: served_log_def)
  next
    case 2
    from limited_trans [OF limited_check [OF 2(2)] unlimited_limited [OF 2(4)], of k ip]
    have "limited k ip (if k = k' \<and> ip = ?ip \<and> ok then 1 else 0) w w'" by simp
    with 2 show ?thesis by (auto simp: served_log_def limited_def split: if_splits)
  qed
qed

lemma reload_limited:
  assumes "reload F path s = Some s'"
  shows "limited k ip 0 (sv_world s) (sv_world s')"
proof -
  have "limited k ip 0 w w'" if "runtime_from_config nr ld c w = Some (Inr (rt, w'))" for nr ld c w rt w'
  proof (rule limited_unused)
    show "w_clock w \<le> w_clock w'"
      using that by (auto simp: runtime_from_config_def Let_def split: option.splits sum.splits if_splits prod.splits)
    show "take (length (w_limiters w)) (w_limiters w') = w_limiters w"
      using alloc_spec [OF runtime_from_config_parts(5) [OF that, symmetric]] by blast
  qed
  with assms show ?thesis
    by (auto simp: reload_def limited_unused split: sum.splits option.splits)
qed

lemma step_limited:
  assumes "server_step X F s e s'"
  shows "limited k ip (forwarded_by k ip e) (sv_world s) (sv_world s')"
  using assms
proof (cases rule: server_step.cases)
  case (request i svc ts rq p st w)
  then show ?thesis using request_limited [OF request(5), of k ip i] by simp
next
  case (resume i svc ts j tk w)
  then show ?thesis using unlimited_limited [OF unl.resumed [OF resume(6)]] by simp
next
  case (sighup rd ex ld nr path)
  with reload_limited show ?thesis by auto
qed (auto simp: count_shed_def intro: limited_unused)

lemma steps_limited:
  assumes "steps (server_step X F) s es s'"
  shows "limited k ip (forwarded k ip es) (sv_world s) (sv_world s')"
  using assms
proof (rule steps_induct_inv)
  fix es s1 e s2
  assume "limited k ip (forwarded k ip es) (sv_world s) (sv_world s1)" "server_step X F s1 e s2"
  from limited_trans [OF this(1) step_limited [OF this(2)]]
  show "limited k ip (forwarded k ip (e # es)) (sv_world s) (sv_world s2)"
    by (simp add: forwarded_def add.commute)
qed (simp add: forwarded_def limited_unused)

section \<open>Limiters and configurations\<close>

text \<open>A limiter that was made for a validated configuration.\<close>

definition configured_limiter :: "(string \<Rightarrow> uri option) \<Rightarrow> rate_limiter list \<Rightarrow> nat \<Rightarrow> bool" where
  "configured_limiter parse_uri ls k \<longleftrightarrow>
     k < length ls
     \<and> (\<exists>cfg r. valid_config parse_uri cfg \<and> rate_limit cfg = Some r \<and> rl_cfg (ls ! k) = limiter_config r
          \<and> emission (ls ! k) = emission (rate_limiter_new (limiter_config r)))"

lemma limited_configured:
  assumes "limited k ip n w w'" "configured_limiter parse_uri (w_limiters w) k"
  shows "configured_limiter parse_uri (w_limiters w') k"
proof -
  obtain calls oks where "check_all (w_limiters w ! k) calls = Some (oks, w_limiters w' ! k)" "k < length (w_limiters w')"
    using assms by (auto simp: limited_def configured_limiter_def)
  with check_all_fields assms(2) show ?thesis unfolding configured_limiter_def by fastforce
qed

lemma runtime_limiter:
  assumes "runtime_from_config nr ld c w = Some (Inr (rt, w'))" "valid_config parse_uri c" "rt_rate_limiter rt = Some k"
  shows "configured_limiter parse_uri (w_limiters w') k"
proof -
  have "length (w_limiters w') = Suc k" "map_option (rate_limiter_new \<circ> limiter_config) (rate_limit c) = Some (w_limiters w' ! k)"
    using alloc_spec [OF runtime_from_config_parts(5) [OF assms(1), symmetric]] assms(3) by auto
  then obtain r where "rate_limit c = Some r" "w_limiters w' ! k = rate_limiter_new (limiter_config r)" "k < length (w_limiters w')"
    by auto
  with assms(2) show ?thesis
    unfolding configured_limiter_def by (intro conjI exI [of _ c] exI [of _ r]) (simp_all add: rate_limiter_new_def)
qed

text \<open>Every limiter in use was made for a validated configuration, and stays what it was made.\<close>

interpretation lim: context_inv X F
  "\<lambda>w c. \<forall>k. ctx_rate_limiter c = Some k \<longrightarrow> configured_limiter (cl_parse_uri F) (w_limiters w) k"
  for X :: "('h, 'b, 'e, 'env) externals" and F :: "'s config_lib"
proof unfold_locales
  fix s :: "('s, 'env, ('h, 'b) rq_task) server" and e s' c
  assume "server_step X F s e s'" "\<forall>k. ctx_rate_limiter c = Some k \<longrightarrow> configured_limiter (cl_parse_uri F) (w_limiters (sv_world s)) k"
  then show "\<forall>k. ctx_rate_limiter c = Some k \<longrightarrow> configured_limiter (cl_parse_uri F) (w_limiters (sv_world s')) k"
    using limited_configured [OF step_limited] by blast
qed (auto simp: session_context_def Let_def intro: runtime_limiter)

lemma limited_bound:
  assumes "limited k ip n w w'" "k < length (w_limiters w)" "0 < n"
  shows "\<exists>credit. max_credit (w_limiters w ! k) = Some credit
           \<and> (n - 1) * emission (w_limiters w ! k) \<le> (w_clock w' - w_clock w) + credit"
proof -
  obtain calls oks where c: "check_all (w_limiters w ! k) calls = Some (oks, w_limiters w' ! k)"
    and t: "\<forall>(t, i) \<in> set calls. w_clock w \<le> t \<and> t \<le> w_clock w + (w_clock w' - w_clock w)"
    and n: "n \<le> allowed_for ip calls oks"
    using assms(1,2) by (auto simp: limited_def)
  have "calls \<noteq> []" using n assms(3) by auto
  then obtain t i calls' where "calls = (t, i) # calls'" by (cases calls) auto
  then have "max_credit (w_limiters w ! k) \<noteq> None" using c by (auto simp: check_def split: option.splits)
  then obtain credit where credit: "max_credit (w_limiters w ! k) = Some credit" by blast
  have "(n - 1) * emission (w_limiters w ! k) \<le> (allowed_for ip calls oks - 1) * emission (w_limiters w ! k)"
    using n by (intro mult_le_mono1 diff_le_mono)
  also have "\<dots> \<le> (w_clock w' - w_clock w) + credit"
    using check_all_window [OF c credit t, of 0 ip] n assms(3) by simp
  finally show ?thesis using credit by blast
qed

section \<open>Properties\<close>


section \<open>Witness\<close>


end
