(* ===== verification/Inflight.thy ===== *)
theory Inflight
  imports Lifecycle "HOL-Library.Multiset"
begin

text \<open>
  The requests of the server that are on their way, across all its connections: how many hold a permit of
  a request semaphore (\<open>request_limit\<close> in \<open>src/main.rs\<close> and \<open>src/proxy/handler.rs\<close>), how many wait for an
  upstream, and what the connection counters of the balancers (\<open>active_connections\<close> in
  \<open>src/loadbalancer.rs\<close>) say of them when requests overlap, are dropped, and the configuration is reloaded.
\<close>

section \<open>The connection counters\<close>

definition counters :: "'env world \<Rightarrow> (string \<times> usize) list list" where
  "counters w = fst (conn_view w)"

fun add_conn :: "usize \<Rightarrow> (lb_ref \<times> nat) option \<Rightarrow> (string \<times> usize) list list \<Rightarrow> (string \<times> usize) list list" where
  "add_conn d None c = c"
| "add_conn d (Some (l, i)) c = c[l := (c ! l)[i := map_prod id (\<lambda>n. n + d) (c ! l ! i)]]"

text \<open>The references that denote an upstream, and its counter.\<close>

fun placed :: "lb_ref \<times> nat \<Rightarrow> (string \<times> usize) list list \<Rightarrow> bool" where
  "placed (l, i) c \<longleftrightarrow> l < length c \<and> i < length (c ! l)"

fun conn_at :: "lb_ref \<times> nat \<Rightarrow> (string \<times> usize) list list \<Rightarrow> usize" where
  "conn_at (l, i) c = snd (c ! l ! i)"

lemma length_add_conn [simp]: "length (add_conn d v c) = length c" "length (add_conn d v c ! l) = length (c ! l)"
proof -
  show "length (add_conn d v c) = length c" by (cases "(d, v, c)" rule: add_conn.cases) simp_all
  show "length (add_conn d v c ! l) = length (c ! l)"
  proof (cases v)
    case (Some u)
    obtain l' i where "u = (l', i)" by (cases u)
    with Some show ?thesis by (cases "l = l' \<and> l < length c") (auto simp: nth_list_update list_update_beyond)
  qed simp
qed

lemma placed_add_conn [simp]: "placed u (add_conn d v c) = placed u c"
  by (cases u) simp

lemma conn_at_add:
  assumes "placed u c"
  shows "conn_at u (add_conn d v c) = conn_at u c + (if v = Some u then d else 0)"
proof (cases v)
  case (Some u')
  obtain l i l' i' where "u = (l, i)" "u' = (l', i')" by (cases u; cases u')
  with Some assms show ?thesis by (cases "l = l'") (auto simp: nth_list_update)
qed simp

lemma add_conn_back: "add_conn (- 1) v (add_conn 1 v c) = c"
proof (cases v)
  case (Some u)
  obtain l i where "u = (l, i)" by (cases u)
  with Some update_back [of "map_prod id (\<lambda>n. n + - 1)" "map_prod id (\<lambda>n. n + 1)" c l i] show ?thesis
    by (simp add: map_prod_def split: prod.split)
qed simp

lemma counters_simps [simp]:
  "counters (upd_metrics f w) = counters w" "counters (record_response a b c t w) = counters w"
  "counters (w\<lparr>w_tunnels := ts\<rparr>) = counters w" "counters (w\<lparr>w_limiters := ls\<rparr>) = counters w"
  "counters (w\<lparr>w_permits := ps\<rparr>) = counters w" "counters (w\<lparr>w_clock := t\<rparr>) = counters w"
  "counters (w\<lparr>w_env := env\<rparr>) = counters w" "counters (drop_permit p w) = counters w"
  "counters (upd_upstream l i inc_connections w) = add_conn 1 (Some (l, i)) (counters w)"
  "counters (upd_upstream l i dec_connections w) = add_conn (- 1) (Some (l, i)) (counters w)"
  by (simp_all add: counters_def conn_view_inc conn_view_dec)
    (simp_all add: conn_view_def upd_metrics_def drop_permit_def release_permit_def split: option.split)

lemma counters_enter_leave [simp]:
  "counters (enter_upstream addr l i w) = add_conn 1 (Some (l, i)) (counters w)"
  "counters (leave_upstream addr l i w) = add_conn (- 1) (Some (l, i)) (counters w)"
  by (simp_all add: enter_upstream_def leave_upstream_def del: add_conn.simps(2))

lemma counters_choose: "choose_upstream l v k tried w = (choice, w') \<Longrightarrow> counters w' = counters w"
  using choose_view [of l v k tried w] by (simp add: counters_def)

lemma counters_select: "with_lb l select w = (choice, w') \<Longrightarrow> counters w' = counters w"
  using with_lb_view [of select l w] select_upstreams(3) by (simp add: counters_def)

lemma counters_reject: "reject L m s msg w = Some (r, w') \<Longrightarrow> counters w' = counters w"
  by (auto simp: reject_def)

lemma placed_counters:
  "placed (l, i) (counters w) \<longleftrightarrow> l < length (w_store w) \<and> i < length (lb_upstreams (w_store w ! l))"
  by (auto simp: counters_def conn_view_def)

lemma length_counters: "length (counters w) = length (w_store w)"
  by (simp add: counters_def conn_view_def)

lemma with_lb_result: "with_lb l f w = (choice, w') \<Longrightarrow> fst (f (w_store w ! l)) = choice"
  by (auto simp: with_lb_def split: prod.splits)

lemma select_available:
  "fst (select_excluding lb ex) = Some i \<Longrightarrow> available lb i"
  "fst (select lb) = Some i \<Longrightarrow> available lb i"
  "fst (select_sticky lb v) = Some i \<Longrightarrow> available lb i"
proof -
  show a: "fst (select_excluding lb ex) = Some i \<Longrightarrow> available lb i" for ex
    using lb.sel_Some [of lb ex i] by (cases "select_excluding lb ex") auto
  show "fst (select lb) = Some i \<Longrightarrow> available lb i" by (simp add: select_def a)
  show "fst (select_sticky lb v) = Some i \<Longrightarrow> available lb i"
    by (auto simp: select_sticky_def find_Some_iff available_def split: option.splits dest: a)
qed

lemma chosen_placed:
  assumes "choose_upstream l v k tried w = (Some i, w')" "l < length (counters w)"
  shows "placed (l, i) (counters w)"
proof -
  have "available (w_store w ! l) i"
    using assms(1) select_available
    by (auto simp: choose_upstream_def upd_metrics_def split: if_splits dest!: with_lb_result)
  with assms(2) show ?thesis unfolding placed_counters length_counters by (simp add: available_def)
qed

section \<open>What a task does to the counters\<close>

fun task_lb :: "('h, 'b) rq_state \<Rightarrow> lb_ref option" where
  "task_lb (AwaitBody l sticky_val) = Some l"
| "task_lb (AwaitAttempt l sticky_val body attempt n tried i rq) = Some l"
| "task_lb (AwaitUpgrade l i addr rq) = Some l"
| "task_lb (Answered r) = None"

text \<open>The balancer and the upstream of a task exist.\<close>

definition refs_ok :: "(string \<times> usize) list list \<Rightarrow> ('h, 'b) rq_state \<Rightarrow> bool" where
  "refs_ok c st \<longleftrightarrow> (\<forall>l. task_lb st = Some l \<longrightarrow> l < length c) \<and> (\<forall>u. at_upstream st = Some u \<longrightarrow> placed u c)"

lemma refs_ok_Answered [simp]: "refs_ok c (Answered r)"
  by (simp add: refs_ok_def)

lemma refs_ok_add_conn [simp]: "refs_ok (add_conn d v c) st = refs_ok c st"
  by (simp add: refs_ok_def)

lemma next_attempt_counters:
  assumes "next_attempt L ctx rq remote l sv body attempt n tried w = Some (st, w')"
  shows "counters w' = add_conn 1 (at_upstream st) (counters w) \<and> (l < length (counters w) \<longrightarrow> refs_ok (counters w) st)"
  using assms
proof (induction n arbitrary: attempt tried w)
  case 0
  then show ?case by (auto dest: counters_reject)
next
  case (Suc n)
  obtain choice w1 where c: "choose_upstream l sv attempt tried w = (choice, w1)"
    by (cases "choose_upstream l sv attempt tried w")
  note w1 = counters_choose [OF c]
  show ?case
  proof (cases choice)
    case None
    with Suc.prems c w1 show ?thesis by (auto dest: counters_reject)
  next
    case (Some i)
    let ?addr = "upstream_addr l i w1"
    show ?thesis
    proof (cases "build_request L (make_attempt ctx rq remote ?addr body False)")
      case (Inl e)
      with Suc.prems c Some have "next_attempt L ctx rq remote l sv body (Suc attempt) n (tried @ [?addr])
          (leave_upstream ?addr l i (enter_upstream ?addr l i w1)) = Some (st, w')"
        by (simp add: Let_def)
      from Suc.IH [OF this] show ?thesis by (simp add: add_conn_back w1 del: add_conn.simps(2))
    next
      case (Inr proxy_req)
      with Suc.prems c Some have "st = AwaitAttempt l sv body attempt n (tried @ [?addr]) i proxy_req"
          "w' = enter_upstream ?addr l i w1"
        by (simp_all add: Let_def)
      with chosen_placed [OF c [unfolded Some]] w1 show ?thesis by (simp add: refs_ok_def del: add_conn.simps(2))
    qed
  qed
qed

lemma begin_upgrade_counters:
  assumes "begin_upgrade L ctx rq remote l w = Some (st, w')"
  shows "counters w' = add_conn 1 (at_upstream st) (counters w) \<and> (l < length (counters w) \<longrightarrow> refs_ok (counters w) st)"
proof -
  obtain choice w1 where c: "with_lb l select w = (choice, w1)" by (cases "with_lb l select w")
  note w1 = counters_select [OF c]
  show ?thesis
  proof (cases choice)
    case None
    with assms c w1 show ?thesis by (auto simp: begin_upgrade_def)
  next
    case (Some i)
    have "available (w_store w ! l) i" using with_lb_result [OF c] Some select_available by blast
    then have "l < length (counters w) \<longrightarrow> placed (l, i) (counters w)"
      unfolding placed_counters length_counters by (simp add: available_def)
    then show ?thesis
      using assms c Some w1
      by (auto simp: begin_upgrade_def Let_def refs_ok_def add_conn_back simp del: add_conn.simps(2) placed.simps
          split: sum.splits)
  qed
qed

lemma task_step_counters:
  assumes "task_step X ctx remote tk w tk' w'"
  shows "counters w' = add_conn 1 (at_upstream (tk_state tk')) (add_conn (- 1) (at_upstream (tk_state tk)) (counters w))
         \<and> (refs_ok (counters w) (tk_state tk) \<longrightarrow> refs_ok (counters w) (tk_state tk'))
         \<and> tk_permit tk' = tk_permit tk"
  using assms
proof (cases rule: task_step.cases)
  case (body l sv C now collected st)
  then show ?thesis
    by (auto simp: resume_body_def Let_def split: sum.splits body_limit_error.splits
        dest!: next_attempt_counters counters_reject) (simp_all add: refs_ok_def)
next
  case (attempt l sv body attempt n tried i proxy_req result st)
  then show ?thesis
    by (auto simp: resume_attempt_def Let_def simp del: add_conn.simps(2) split: option.splits sum.splits
        dest!: next_attempt_counters) (simp_all add: refs_ok_def)
next
  case (upgrade l i addr proxy_req result st)
  then show ?thesis
    by (auto simp: resume_upgrade_def Let_def simp del: add_conn.simps(2) split: option.splits sum.splits if_splits)
qed

lemma begin_admitted_counters:
  assumes "begin_admitted L ctx rq remote w = Some (st, w')"
  shows "counters w' = add_conn 1 (at_upstream st) (counters w)
         \<and> ((\<forall>path l. resolve (ctx_router ctx) path = Some l \<longrightarrow> l < length (counters w)) \<longrightarrow> refs_ok (counters w) st)"
proof -
  have body: "refs_ok c (AwaitBody l sv) \<longleftrightarrow> l < length c" for c l sv by (simp add: refs_ok_def)
  show ?thesis
    using assms
    by (auto simp: begin_admitted_def Let_def check_limiter_def body simp del: add_conn.simps(2)
        split: if_splits option.splits prod.splits dest!: begin_upgrade_counters counters_reject)
qed

lemma begin_request_counters:
  assumes "begin_request L ctx rq remote w = Some (p, st, w')"
  shows "counters w' = add_conn 1 (at_upstream st) (counters w)
         \<and> ((\<forall>path l. resolve (ctx_router ctx) path = Some l \<longrightarrow> l < length (counters w)) \<longrightarrow> refs_ok (counters w) st)"
  using assms
  by (auto simp: begin_request_def simp del: add_conn.simps(2) split: if_splits option.splits
      dest!: begin_admitted_counters counters_reject)

section \<open>What a task does to the permits\<close>

interpretation prm: task_frame "\<lambda>w w'. w_permits w' = w_permits w"
  by unfold_locales (auto simp: upd_metrics_def)

lemma begin_admitted_permits:
  assumes "begin_admitted L ctx rq remote w = Some (st, w')"
  shows "w_permits w' = w_permits w"
  using assms
  by (auto simp: begin_admitted_def Let_def check_limiter_def upd_metrics_def split: if_splits option.splits prod.splits
      dest!: prm.rejected prm.upgraded)

lemma begin_request_permits:
  assumes "begin_request L ctx rq remote w = Some (p, st, w')"
  shows "(p = None \<and> w_permits w' = w_permits w \<and> (waiting st \<longrightarrow> ctx_request_limit ctx = None))
         \<or> (\<exists>k. p = Some k \<and> ctx_request_limit ctx = Some k \<and> 0 < w_permits w ! k
              \<and> w_permits w' = (w_permits w)[k := w_permits w ! k - 1])"
  using assms
  by (auto simp: begin_request_def waiting_def split: if_splits option.splits
      dest!: begin_admitted_permits prm.rejected)

section \<open>The ledger\<close>

text \<open>
  An abstraction of the server: its tasks, as a multiset, the connection counters and the free permits.
  A step may allocate, begin, move or drop tasks; the label lists the upstreams that dropped tasks were
  waiting for. \<open>V\<close> says how many permits a semaphore may have, and \<open>routed\<close> whether the
  routes in use lead to balancers that exist.
\<close>

type_synonym ('h, 'b) ledger = "('h, 'b) rq_task multiset \<times> (string \<times> usize) list list \<times> nat list"

definition at_task :: "('h, 'b) rq_task \<Rightarrow> (lb_ref \<times> nat) option" where
  "at_task tk = at_upstream (tk_state tk)"

definition release :: "nat option \<Rightarrow> nat list \<Rightarrow> nat list" where
  "release k p = (case k of None \<Rightarrow> p | Some k \<Rightarrow> p[k := Suc (p ! k)])"

inductive ledger_step ::
  "(nat \<Rightarrow> bool) \<Rightarrow> bool \<Rightarrow> ('h, 'b) ledger \<Rightarrow> (lb_ref \<times> nat) list \<Rightarrow> ('h, 'b) ledger \<Rightarrow> bool" for V routed
  where
    idle: "ledger_step V routed L [] L"
  | built: "ledger_step V routed (T, c, p) [] (T, c @ c', p @ p')"
      if "\<forall>us \<in> set c'. \<forall>u \<in> set us. snd u = 0" "\<forall>n \<in> set p'. V n"
  | begun: "ledger_step V routed (T, c, p) [] (add_mset tk T, add_conn 1 (at_task tk) c, p)"
      if "tk_permit tk = None" "routed \<longrightarrow> refs_ok c (tk_state tk)"
  | admitted: "ledger_step V routed (T, c, p) [] (add_mset tk T, add_conn 1 (at_task tk) c, p[k := p ! k - 1])"
      if "tk_permit tk = Some k" "0 < p ! k" "routed \<longrightarrow> k < length p \<and> refs_ok c (tk_state tk)"
  | moved: "ledger_step V routed (add_mset tk T, c, p) []
        (add_mset tk' T, add_conn 1 (at_task tk') (add_conn (- 1) (at_task tk) c), p)"
      if "tk_permit tk' = tk_permit tk" "refs_ok c (tk_state tk) \<longrightarrow> refs_ok c (tk_state tk')"
  | dropped: "ledger_step V routed (mset ts + T, c, p) (List.map_filter at_task ts) 
        (T, c, foldl (\<lambda>p tk. release (tk_permit tk) p) p ts)"

definition holders :: "nat \<Rightarrow> ('h, 'b) rq_task multiset \<Rightarrow> nat" where
  "holders k T = size (filter_mset (\<lambda>tk. tk_permit tk = Some k) T)"

definition inflight :: "lb_ref \<times> nat \<Rightarrow> ('h, 'b) rq_task multiset \<Rightarrow> nat" where
  "inflight u T = size (filter_mset (\<lambda>tk. at_task tk = Some u) T)"

lemma holders_simps [simp]:
  "holders k {#} = 0" "holders k (add_mset tk T) = (if tk_permit tk = Some k then 1 else 0) + holders k T"
  "holders k (T + T') = holders k T + holders k T'"
  by (simp_all add: holders_def)

lemma inflight_simps [simp]:
  "inflight u {#} = 0" "inflight u (add_mset tk T) = (if at_task tk = Some u then 1 else 0) + inflight u T"
  "inflight u (T + T') = inflight u T + inflight u T'"
  by (simp_all add: inflight_def)

lemma map_filter_Nil [simp]: "List.map_filter f [] = []"
  by (simp add: List.map_filter_def)

lemma inflight_mset: "inflight u (mset ts) = count_list (List.map_filter at_task ts) u"
  by (induction ts) (auto simp: map_filter_simps split: option.split)

text \<open>
  The books balance: tasks refer to what exists, permits and their holders add up to a legal limit, and a
  counter shows the tasks at its upstream and those that were dropped there.
\<close>

definition balanced :: "(nat \<Rightarrow> bool) \<Rightarrow> (lb_ref \<times> nat) list \<Rightarrow> ('h, 'b) ledger \<Rightarrow> bool" where
  "balanced V ls L =
     (case L of (T, c, p) \<Rightarrow>
        (\<forall>tk \<in># T. refs_ok c (tk_state tk) \<and> (\<forall>k. tk_permit tk = Some k \<longrightarrow> k < length p))
        \<and> (\<forall>u \<in> set ls. placed u c)
        \<and> (\<forall>k < length p. V (p ! k + holders k T))
        \<and> (\<forall>u. placed u c \<longrightarrow> conn_at u c = of_nat (inflight u T + count_list ls u)))"

lemma placed_append: "placed u c \<Longrightarrow> placed u (c @ c') \<and> conn_at u (c @ c') = conn_at u c"
  by (cases u) (simp add: nth_append)

lemma refs_ok_append: "refs_ok c st \<Longrightarrow> refs_ok (c @ c') st"
  unfolding refs_ok_def using placed_append by (fastforce simp del: placed.simps)

lemma new_counter:
  assumes "placed u (c @ c')" "\<not> placed u c" "\<forall>us \<in> set c'. \<forall>v \<in> set us. snd v = 0"
  shows "conn_at u (c @ c') = 0"
proof -
  obtain l i where u: "u = (l, i)" by (cases u)
  then have "\<not> l < length c" "l - length c < length c'" "i < length (c' ! (l - length c))"
    using assms(1,2) by (auto simp: nth_append split: if_splits)
  then have "c' ! (l - length c) ! i \<in> set (c' ! (l - length c))" "c' ! (l - length c) \<in> set c'" by simp_all
  with assms(3) \<open>\<not> l < length c\<close> show ?thesis by (auto simp: u nth_append)
qed

lemma inflight_unplaced: "\<forall>tk \<in># T. refs_ok c (tk_state tk) \<Longrightarrow> \<not> placed u c \<Longrightarrow> inflight u T = 0"
  by (induction T; cases u) (auto simp: refs_ok_def at_task_def)

lemma holders_new: "\<forall>tk \<in># T. \<forall>k. tk_permit tk = Some k \<longrightarrow> k < length p \<Longrightarrow> length p \<le> k \<Longrightarrow> holders k T = 0"
  by (induction T) auto

lemma length_release [simp]: "length (foldl (\<lambda>p tk. release (tk_permit tk) p) p ts) = length p"
  by (induction ts arbitrary: p) (simp_all add: release_def split: option.split)

lemma release_all:
  "k < length p \<Longrightarrow> foldl (\<lambda>p tk. release (tk_permit tk) p) p ts ! k = p ! k + holders k (mset ts)"
  by (induction ts arbitrary: p) (auto simp: release_def nth_list_update split: option.split)

lemma balancedI:
  assumes "\<And>tk. tk \<in># T \<Longrightarrow> refs_ok c (tk_state tk)" "\<And>tk k. tk \<in># T \<Longrightarrow> tk_permit tk = Some k \<Longrightarrow> k < length p"
    and "\<And>u. u \<in> set ls \<Longrightarrow> placed u c" "\<And>k. k < length p \<Longrightarrow> V (p ! k + holders k T)"
    and "\<And>u. placed u c \<Longrightarrow> conn_at u c = of_nat (inflight u T + count_list ls u)"
  shows "balanced V ls (T, c, p)"
  using assms by (auto simp: balanced_def)

lemma balancedD:
  assumes "balanced V ls (T, c, p)"
  shows "\<And>tk. tk \<in># T \<Longrightarrow> refs_ok c (tk_state tk)" "\<And>tk k. tk \<in># T \<Longrightarrow> tk_permit tk = Some k \<Longrightarrow> k < length p"
    and "\<And>u. u \<in> set ls \<Longrightarrow> placed u c" "\<And>k. k < length p \<Longrightarrow> V (p ! k + holders k T)"
    and "\<And>u. placed u c \<Longrightarrow> conn_at u c = of_nat (inflight u T + count_list ls u)"
  using assms by (auto simp: balanced_def)

lemma built_balanced:
  assumes "balanced V ls (T, c, p)" "\<forall>us \<in> set c'. \<forall>u \<in> set us. snd u = 0" "\<forall>n \<in> set p'. V n"
  shows "balanced V ls (T, c @ c', p @ p')"
proof (rule balancedI)
  note b = balancedD [OF assms(1)]
  show "V ((p @ p') ! k + holders k T)" if "k < length (p @ p')" for k
    using that b(4) assms(3) holders_new [of T p k] b(2) by (cases "k < length p") (auto simp: nth_append)
  show "conn_at u (c @ c') = of_nat (inflight u T + count_list ls u)" if u: "placed u (c @ c')" for u
  proof (cases "placed u c")
    case True
    then show ?thesis using b(5) placed_append by simp
  next
    case False
    then have "count_list ls u = 0" using b(3) [of u] by (auto simp: count_list_0_iff)
    with False show ?thesis using new_counter [OF u False assms(2)] inflight_unplaced [of T c u] b(1) by simp
  qed
qed (use balancedD [OF assms(1)] in \<open>auto simp: refs_ok_append placed_append trans_less_add1\<close>)

lemma dropped_placed:
  assumes "\<And>tk. tk \<in> set ts \<Longrightarrow> refs_ok c (tk_state tk)" "u \<in> set (List.map_filter at_task ts)"
  shows "placed u c"
proof -
  obtain tk where "tk \<in> set ts" "at_upstream (tk_state tk) = Some u"
    using assms(2) by (auto simp: map_filter_def at_task_def)
  with assms(1) show ?thesis unfolding refs_ok_def by blast
qed

lemma ledger_step_balanced:
  assumes "ledger_step V True L xs L'" "balanced V ls L"
  shows "balanced V (xs @ ls) L'"
  using assms
proof (induction rule: ledger_step.induct)
  case (built c' p' T c p)
  then show ?case by (simp add: built_balanced)
next
  case (begun tk c T p)
  note b = balancedD [OF begun(3)]
  show ?case by (rule balancedI) (use b begun(1,2) in \<open>auto simp: conn_at_add\<close>)
next
  case (admitted tk k p c T)
  note b = balancedD [OF admitted(4)]
  show ?case
    by (rule balancedI) (use b admitted(1-3) b(4) [of k] in \<open>auto simp: conn_at_add nth_list_update\<close>)
next
  case (moved tk' tk c T p)
  note b = balancedD [OF moved(3)]
  show ?case by (rule balancedI) (use b b(2) [of tk] moved(1,2) in \<open>auto simp: conn_at_add\<close>)
next
  case (dropped ts T c p)
  note b = balancedD [OF dropped]
  have "placed u c" if "u \<in> set (List.map_filter at_task ts @ ls)" for u
    using that b(1) b(3) [of u] dropped_placed [of ts c u] by auto
  with b show ?case by (intro balancedI) (auto simp: release_all inflight_mset ac_simps)
qed simp

section \<open>The server keeps the books\<close>

definition tasks :: "('s, 'env, 'k) server \<Rightarrow> 'k multiset" where
  "tasks s = mset (concat (map session_tasks (sv_sessions s)))"

definition ledger :: "('s, 'env, ('h, 'b) rq_task) server \<Rightarrow> ('h, 'b) ledger" where
  "ledger s = (tasks s, counters (sv_world s), w_permits (sv_world s))"

text \<open>The upstreams that dropped tasks were waiting for.\<close>

fun lost :: "event \<Rightarrow> (lb_ref \<times> nat) list" where
  "lost (Cancelled i u) = List.map_filter id [u]"
| "lost (Finished i us) = List.map_filter id us"
| "lost _ = []"

definition request_limit_of :: "'s config_lib \<Rightarrow> nat \<Rightarrow> bool" where
  "request_limit_of F n \<longleftrightarrow>
     (\<exists>cfg. valid_config (cl_parse_uri F) cfg \<and> 0 < max_connections cfg \<and> n = unat (max_connections cfg))"

definition ctx_ok :: "'env world \<Rightarrow> proxy_context \<Rightarrow> bool" where
  "ctx_ok w c \<longleftrightarrow>
     (\<forall>path l. resolve (ctx_router c) path = Some l \<longrightarrow> l < length (counters w))
     \<and> (\<forall>k. ctx_request_limit c = Some k \<longrightarrow> k < length (w_permits w))"

lemma remove_nth_split: "i < length xs \<Longrightarrow> mset (concat (map f xs)) = mset (f (xs ! i)) + mset (concat (map f (remove_nth i xs)))"
  by (subst id_take_nth_drop [of i xs]) (simp_all add: remove_nth_def)

lemma remove_nth_update: "remove_nth i (xs[i := y]) = remove_nth i xs"
  by (simp add: remove_nth_def)

lemma remove_nth_mset: "i < length xs \<Longrightarrow> mset xs = add_mset (xs ! i) (mset (remove_nth i xs))"
  using remove_nth_split [of i xs "\<lambda>x. [x]"] by simp

definition others :: "nat \<Rightarrow> ('s, 'env, 'k) server \<Rightarrow> 'k multiset" where
  "others i s = mset (concat (map session_tasks (remove_nth i (sv_sessions s))))"

lemma tasks_split:
  assumes "i < length (sv_sessions s)"
  shows "tasks s = mset (session_tasks (sv_sessions s ! i)) + others i s"
    and "sv_sessions s' = remove_nth i (sv_sessions s) \<Longrightarrow> tasks s' = others i s"
    and "sv_sessions s' = (sv_sessions s)[i := y] \<Longrightarrow> tasks s' = mset (session_tasks y) + others i s"
  using assms remove_nth_split [of i "sv_sessions s" session_tasks] remove_nth_split [of i "(sv_sessions s)[i := y]" session_tasks]
  by (simp_all add: tasks_def others_def remove_nth_update)

lemma drop_tasks_view:
  "counters (drop_tasks ts w) = counters w"
  "w_permits (drop_tasks ts w) = foldl (\<lambda>p tk. release (tk_permit tk) p) (w_permits w) ts"
  by (induction ts arbitrary: w)
    (simp_all add: drop_tasks_def release_def drop_permit_def release_permit_def split: option.split)

lemma drop_step:
  assumes "tasks s = mset ts + tasks s'" "sv_world s' = drop_tasks ts (sv_world s)"
  shows "ledger_step V r (ledger s) (List.map_filter at_task ts) (ledger s')"
  using ledger_step.dropped [of V r ts "tasks s'" "counters (sv_world s)" "w_permits (sv_world s)"] assms
  by (simp add: ledger_def drop_tasks_view)

lemma apply_check_view:
  "counters (sv_world (apply_check ok t s)) = counters (sv_world s)"
  "w_permits (sv_world (apply_check ok t s)) = w_permits (sv_world s)"
proof -
  obtain l i where t: "t = (l, i)" by (cases t)
  let ?hw = "checker_world (sv_checker s) (sv_world s)"
  obtain b where "hw_store (check_upstream (ck_config (sv_checker s)) ok (l, i) ?hw)
      = (hw_store ?hw)[l := update_upstream i (set_healthy b) (hw_store ?hw ! l)]"
    by (cases "observe (ck_config (sv_checker s)) ((case hw_state ?hw (rt_address (lb_upstreams (hw_store ?hw ! l) ! i)) of
        None \<Rightarrow> initial_entry | Some e \<Rightarrow> e), healthy (lb_upstreams (hw_store ?hw ! l) ! i)) ok")
      (simp add: check_upstream_def Let_def)
  then have w: "sv_world (apply_check ok t s) = upd_upstream l i (set_healthy b) (sv_world s)"
    by (simp add: t apply_check_def checker_world_def upd_upstream_def Let_def)
  have "counters (upd_upstream l i (set_healthy b) w) = counters w" for w :: "'a world"
    using conn_view_upstream [of "set_healthy b" "\<lambda>n. n" l i w]
    by (simp add: counters_def set_healthy_def map_prod_def case_prod_beta)
  with w show "counters (sv_world (apply_check ok t s)) = counters (sv_world s)" by simp
  show "w_permits (sv_world (apply_check ok t s)) = w_permits (sv_world s)"
    by (simp add: apply_check_def Let_def)
qed

lemma same_ledger:
  assumes "tasks s' = tasks s" "counters (sv_world s') = counters (sv_world s)" "w_permits (sv_world s') = w_permits (sv_world s)"
  shows "ledger_step V r (ledger s) [] (ledger s')"
  using assms ledger_step.idle [of V r "ledger s"] by (simp add: ledger_def)

lemma new_runtime_books:
  assumes "runtime_from_config nr ld c w = Some (Inr (rt, w'))" "valid_config (cl_parse_uri F) c"
  shows "\<exists>c' p'. counters w' = counters w @ c' \<and> w_permits w' = w_permits w @ p'
           \<and> (\<forall>us \<in> set c'. \<forall>u \<in> set us. snd u = 0) \<and> (\<forall>n \<in> set p'. request_limit_of F n)"
proof -
  note parts = runtime_from_config_parts [OF assms(1)]
  define c' where "c' = map (\<lambda>lb. map (\<lambda>u. (rt_address u, active_connections u)) (lb_upstreams lb)) (snd (router_from_config c))"
  define p' where "p' = (if max_connections c > 0 then [unat (max_connections c)] else [])"
  have "counters w' = counters w @ c'" by (simp add: counters_def conn_view_def parts(4) c'_def)
  moreover have "w_permits w' = w_permits w @ p'"
    using parts(6) by (auto simp: alloc_def p'_def split: if_splits)
  moreover have "\<forall>us \<in> set c'. \<forall>u \<in> set us. snd u = 0"
    by (auto simp: c'_def router_store route_balancer_def lb_from_config_def from_upstreams_def upstream_runtime_new_def)
  moreover have "\<forall>n \<in> set p'. request_limit_of F n"
    using assms(2) by (auto simp: p'_def request_limit_of_def)
  ultimately show ?thesis by blast
qed

lemma reload_books:
  assumes "reload F' path s = Some s'" "cl_parse_uri F' = cl_parse_uri F"
  shows "ledger_step (request_limit_of F) r (ledger s) [] (ledger s')"
proof (cases "sv_world s' = sv_world s")
  case True
  then show ?thesis using reload_fields(4) [OF assms(1)] by (intro same_ledger) (simp_all add: tasks_def)
next
  case False
  then obtain cfg nr ld and rt :: "'a runtime" where "valid_config (cl_parse_uri F) cfg"
      "runtime_from_config nr ld cfg (sv_world s) = Some (Inr (rt, sv_world s'))"
    using assms load_file_valid [of F' path] by (auto simp: reload_def split: sum.splits option.splits)
  from new_runtime_books [OF this(2,1)] obtain c' p' where "counters (sv_world s') = counters (sv_world s) @ c'"
      "w_permits (sv_world s') = w_permits (sv_world s) @ p'" "\<forall>us \<in> set c'. \<forall>u \<in> set us. snd u = 0"
      "\<forall>n \<in> set p'. request_limit_of F n"
    by blast
  then show ?thesis
    using ledger_step.built [of c' p' "request_limit_of F" r "tasks s"] reload_fields(4) [OF assms(1)]
    by (simp add: ledger_def tasks_def)
qed

lemma request_books:
  assumes "begin_request L ctx rq remote (sv_world s) = Some (p, st, w)" "sv_world s' = w"
    and "tasks s' = add_mset (request_task rq t p st) (tasks s)" "r \<longrightarrow> ctx_ok (sv_world s) ctx"
  shows "ledger_step V r (ledger s) [] (ledger s')"
proof -
  let ?c = "counters (sv_world s)" and ?p = "w_permits (sv_world s)" and ?tk = "request_task rq t p st"
  have c: "counters w = add_conn 1 (at_task ?tk) ?c" "r \<longrightarrow> refs_ok ?c (tk_state ?tk)"
    using begin_request_counters [OF assms(1)] assms(4) by (auto simp: at_task_def request_task_def ctx_ok_def)
  consider "p = None" "w_permits w = ?p"
    | k where "p = Some k" "ctx_request_limit ctx = Some k" "0 < ?p ! k" "w_permits w = ?p[k := ?p ! k - 1]"
    using begin_request_permits [OF assms(1)] by blast
  then show ?thesis
  proof cases
    case 1
    then show ?thesis
      using ledger_step.begun [of ?tk r ?c V "tasks s" ?p] c assms(2,3) by (simp add: ledger_def request_task_def)
  next
    case 2
    then have "tk_permit ?tk = Some k" "r \<longrightarrow> k < length ?p"
      using assms(4) by (auto simp: request_task_def ctx_ok_def)
    then show ?thesis
      using ledger_step.admitted [of ?tk k ?p r ?c V "tasks s"] c 2 assms(2,3) by (simp add: ledger_def)
  qed
qed

lemma resume_books:
  assumes "task_step X ctx remote tk (sv_world s) tk' w" "sv_world s' = w"
    and "tasks s = add_mset tk T" "tasks s' = add_mset tk' T"
  shows "ledger_step V r (ledger s) [] (ledger s')"
  using task_step_counters [OF assms(1)] prm.resumed [OF assms(1)] assms(2-)
    ledger_step.moved [of tk' tk "counters (sv_world s)" V r T "w_permits (sv_world s)"]
  by (simp add: ledger_def at_task_def)

lemma no_tasks_new [simp]: "session_tasks (open_session rt c) = []" "session_tasks (serve_session ok ctx addr) = []"
  by (auto simp: open_session_def serve_session_def split: option.split)

lemma dropped_at:
  "List.map_filter id (map (\<lambda>tk. at_upstream (tk_state tk)) ts) = List.map_filter at_task ts"
  "List.map_filter id [at_upstream (tk_state tk)] = List.map_filter at_task [tk]"
  "\<not> waiting (tk_state tk) \<Longrightarrow> at_task tk = None"
  by (induction ts) (auto simp: map_filter_simps at_task_def waiting_def split: rq_state.splits option.split)

lemma tasks_start:
  assumes "i < length (sv_sessions s)" "sv_sessions s ! i = Serving svc ts"
  shows "tasks (set_tasks i svc (ts @ [tk]) w s) = add_mset tk (tasks s)"
  using tasks_split(1) [OF assms(1)] tasks_split(3) [OF assms(1), of "set_tasks i svc (ts @ [tk]) w s"] assms(2) by simp

lemma tasks_replace:
  assumes "i < length (sv_sessions s)" "sv_sessions s ! i = Serving svc ts" "j < length ts"
  shows "tasks s = add_mset (ts ! j) (mset (remove_nth j ts) + others i s)"
    and "tasks (set_tasks i svc (ts[j := tk]) w s) = add_mset tk (mset (remove_nth j ts) + others i s)"
    and "tasks s = mset [ts ! j] + tasks (set_tasks i svc (remove_nth j ts) w s)"
  using tasks_split(1) [OF assms(1)] tasks_split(3) [OF assms(1), of "set_tasks i svc (ts[j := tk]) w s"]
    tasks_split(3) [OF assms(1), of "set_tasks i svc (remove_nth j ts) w s"] assms
    remove_nth_mset [of j ts] remove_nth_mset [of j "ts[j := tk]"]
  by (simp_all add: remove_nth_update)

lemma step_books:
  assumes "server_step X F s e s'" "\<nexists>q n. e = Exited q n"
  shows "ledger_step (request_limit_of F) (\<forall>c \<in> ctxs s. ctx_ok (sv_world s) c) (ledger s) (lost e) (ledger s')"
  using assms(1)
proof (cases rule: server_step.cases)
  case (dispatch c q)
  then show ?thesis by (simp add: same_ledger tasks_def)
next
  case (handshake i addr st ctx ok)
  with tasks_split(1) [OF handshake(3)] tasks_split(3) [OF handshake(3), of s' "serve_session ok ctx addr"]
  show ?thesis by (simp add: same_ledger)
next
  case (request i svc ts rq p st w)
  have "svc_ctx svc \<in> ctxs s" using serving_ctx nth_mem [OF request(3)] request(4) by metis
  then show ?thesis
    unfolding request(1,2) lost.simps by (intro request_books [OF request(5) _ tasks_start [OF request(3,4)]]) auto
next
  case (resume i svc ts j tk w)
  show ?thesis
    unfolding resume(1,2) lost.simps by (rule resume_books [OF resume(6) _ tasks_replace(1,2) [OF resume(3-5)]]) simp
next
  case (respond i svc ts j)
  then show ?thesis
    using drop_step [OF tasks_replace(3) [OF respond(3-5), of "drop_tasks [ts ! j] (sv_world s)"]] by (simp add: dropped_at)
next
  case (cancel i svc ts j)
  then show ?thesis
    using drop_step [OF tasks_replace(3) [OF cancel(3-5), of "drop_tasks [ts ! j] (sv_world s)"]]
    by (cases "at_upstream (tk_state (ts ! j))") (simp_all add: at_task_def)
next
  case (finish i)
  then show ?thesis
    using drop_step [of s "session_tasks (sv_sessions s ! i)" s'] tasks_split(1) [OF finish(3)]
      tasks_split(2) [OF finish(3), of s'] by (simp add: dropped_at)
next
  case (sighup rd ex ld nr path)
  then show ?thesis using reload_books [OF sighup(3), of F] by simp
next
  case exit
  with assms(2) show ?thesis by simp
qed (simp_all add: same_ledger tasks_def count_shed_def apply_check_view prm.metrics)

section \<open>Reachable states\<close>

lemma ledger_grows:
  assumes "ledger_step V r (T, c, p) xs (T', c', p')"
  shows "length c \<le> length c'" "length p \<le> length p'"
  using assms by (auto elim: ledger_step.cases)

lemma Terminated_stays: "server_step X F s e s' \<Longrightarrow> sv_phase s = Terminated \<Longrightarrow> sv_phase s' = Terminated"
  by (erule server_step.cases) (auto simp: reload_fields)

lemma exit_world:
  assumes "server_step X F s (Exited q n) s'"
  shows "sv_world s' = sv_world s \<and> sv_phase s' = Terminated"
  using assms by (cases rule: server_step.cases) auto

interpretation bks: context_inv X F ctx_ok for X :: "('h, 'b, 'e, 'env) externals" and F :: "'s config_lib"
proof unfold_locales
  fix s :: "('s, 'env, ('h, 'b) rq_task) server" and e s' c
  assume st: "server_step X F s e s'" and c: "ctx_ok (sv_world s) c"
  have "length (counters (sv_world s)) \<le> length (counters (sv_world s'))
      \<and> length (w_permits (sv_world s)) \<le> length (w_permits (sv_world s'))"
  proof (cases "\<exists>q n. e = Exited q n")
    case True
    then show ?thesis using st exit_world by fastforce
  next
    case False
    from ledger_grows [OF step_books [OF st False, unfolded ledger_def]] show ?thesis by blast
  qed
  with c show "ctx_ok (sv_world s') c" unfolding ctx_ok_def by (meson less_le_trans)
next
  fix nr ld cfg w w' and rt :: "'s runtime"
  assume r: "runtime_from_config nr ld cfg w = Some (Inr (rt, w'))"
  have "l < length (w_store w')" if "resolve (rt_router rt) path = Some l" for path l
    using runtime_refs [OF r, of path] that by (simp add: routes_to_def)
  moreover have "k < length (w_permits w')" if "rt_request_limit rt = Some k" for k
    using runtime_refs [OF r] that by simp
  ultimately show "ctx_ok w' (session_context rt)"
    by (auto simp: ctx_ok_def session_context_def Let_def length_counters)
qed

lemma start_balanced:
  assumes "start_server F path (fresh_world now env) = Some (Inr s)"
  shows "balanced (request_limit_of F) [] (ledger s)"
proof -
  obtain cfg rt w' where "runtime_from_config (cl_native_roots F) (cl_load_tls F) cfg (fresh_world now env) = Some (Inr (rt, w'))"
      "valid_config (cl_parse_uri F) cfg" and s: "sv_world s = w'" "sv_sessions s = []"
    using start_server_state [OF assms] load_file_valid [of F path] by auto
  from new_runtime_books [OF this(1,2)] obtain c' p' where c: "counters w' = counters (fresh_world now env) @ c'"
      "w_permits w' = w_permits (fresh_world now env) @ p'" "\<forall>us \<in> set c'. \<forall>u \<in> set us. snd u = 0"
      "\<forall>n \<in> set p'. request_limit_of F n"
    by blast
  moreover have "counters (fresh_world now env) = []" "w_permits (fresh_world now env) = []"
    by (simp_all add: fresh_world_def counters_def conn_view_def)
  moreover have "balanced (request_limit_of F) [] ({#}, [], [])" by (simp add: balanced_def)
  moreover note ledger_step_balanced [OF ledger_step.built [OF c(3,4)] this]
  ultimately show ?thesis by (simp add: ledger_def tasks_def s)
qed

lemma run_balanced:
  fixes s :: "('s, 'env, ('h, 'b) rq_task) server"
  assumes "run X F path es s" "sv_phase s \<noteq> Terminated"
  shows "balanced (request_limit_of F) (concat (map lost es)) (ledger s)"
proof -
  have "run X F path es s \<and> (sv_phase s \<noteq> Terminated \<longrightarrow> balanced (request_limit_of F) (concat (map lost es)) (ledger s))"
    using assms(1)
  proof (rule srv.trace_invariant)
    fix s :: "('s, 'env, ('h, 'b) rq_task) server"
    assume "\<exists>now env. start_server F path (fresh_world now env) = Some (Inr s)"
    then show "run X F path [] s
        \<and> (sv_phase s \<noteq> Terminated \<longrightarrow> balanced (request_limit_of F) (concat (map lost [])) (ledger s))"
      using start_balanced by (auto simp: run_def)
  next
    fix es e and s s' :: "('s, 'env, ('h, 'b) rq_task) server"
    assume s: "run X F path es s \<and> (sv_phase s \<noteq> Terminated \<longrightarrow> balanced (request_limit_of F) (concat (map lost es)) (ledger s))"
      "server_step X F s e s'"
    have "balanced (request_limit_of F) (lost e @ concat (map lost es)) (ledger s')" if "sv_phase s' \<noteq> Terminated"
    proof (rule ledger_step_balanced)
      show "balanced (request_limit_of F) (concat (map lost es)) (ledger s)"
        using that s Terminated_stays by blast
      show "ledger_step (request_limit_of F) True (ledger s) (lost e) (ledger s')"
        using step_books [OF s(2)] exit_world that s bks.holds by fastforce
    qed
    with s srv.exec_step show "run X F path (e # es) s'
        \<and> (sv_phase s' \<noteq> Terminated \<longrightarrow> balanced (request_limit_of F) (concat (map lost (e # es))) (ledger s'))"
      by fastforce
  qed
  with assms(2) show ?thesis by blast
qed

section \<open>Who holds a permit\<close>

text \<open>A request that has not been answered holds a permit of the semaphore of its session, if it has one.\<close>

interpretation own: task_inv X F path
  "\<lambda>es s svc tk. waiting (tk_state tk) \<longrightarrow> tk_permit tk = ctx_request_limit (svc_ctx svc)"
  for X :: "('h, 'b, 'e, 'env) externals" and F :: "'s config_lib" and path
proof unfold_locales
  fix svc w w' and tk tk' :: "('h, 'b) rq_task"
  assume t: "task_step X (svc_ctx svc) (svc_client_addr svc) tk w tk' w'"
    and q: "waiting (tk_state tk) \<longrightarrow> tk_permit tk = ctx_request_limit (svc_ctx svc)"
  have "waiting (tk_state tk)" using t by (cases rule: task_step.cases) (simp_all add: waiting_def)
  with q task_step_counters [OF t] show "waiting (tk_state tk') \<longrightarrow> tk_permit tk' = ctx_request_limit (svc_ctx svc)"
    by simp
qed (auto simp: request_task_def dest: begin_request_permits)

text \<open>The requests on their way in the sessions with request semaphore \<open>k\<close>.\<close>

fun waiting_in :: "nat \<Rightarrow> ('h, 'b) rq_task session \<Rightarrow> ('h, 'b) rq_task list" where
  "waiting_in k (Serving svc ts) =
     (if ctx_request_limit (svc_ctx svc) = Some k then filter (\<lambda>tk. waiting (tk_state tk)) ts else [])"
| "waiting_in k _ = []"

definition waiting_under :: "nat \<Rightarrow> ('s, 'env, ('h, 'b) rq_task) server \<Rightarrow> nat" where
  "waiting_under k s = length (concat (map (waiting_in k) (sv_sessions s)))"

lemma waiting_in_holders:
  fixes x :: "('h, 'b) rq_task session"
  assumes "\<And>svc ts tk. x = Serving svc ts \<Longrightarrow> tk \<in> set ts \<Longrightarrow> waiting (tk_state tk) \<Longrightarrow> tk_permit tk = ctx_request_limit (svc_ctx svc)"
  shows "length (waiting_in k x) \<le> holders k (mset (session_tasks x))"
proof (cases x)
  case (Serving svc ts)
  have "length (filter (\<lambda>tk. waiting (tk_state tk)) us) \<le> holders k (mset us)"
    if "\<forall>tk \<in> set us. waiting (tk_state tk) \<longrightarrow> tk_permit tk = Some k" for us :: "('h, 'b) rq_task list"
    using that by (induction us) auto
  with assms [OF Serving] Serving show ?thesis by simp
qed simp_all

lemma waiting_under_holders:
  fixes s :: "('s, 'env, ('h, 'b) rq_task) server"
  assumes "run X F path es s"
  shows "waiting_under k s \<le> holders k (tasks s)"
proof -
  have "length (waiting_in k x) \<le> holders k (mset (session_tasks x))" if "x \<in> set (sv_sessions s)" for x
    using own.holds [OF assms] that by (intro waiting_in_holders) blast
  then have "length (concat (map (waiting_in k) xs)) \<le> holders k (mset (concat (map session_tasks xs)))"
    if "set xs \<subseteq> set (sv_sessions s)" for xs
    using that by (induction xs) (auto intro: add_mono)
  then show ?thesis by (simp add: waiting_under_def tasks_def)
qed

section \<open>Properties\<close>


text \<open>C6. What the connection counters of the balancers count. In every state of a running server, and for
  every upstream of every balancer, also of configurations that were replaced, the counter is the number
  of requests that are waiting for the upstream, on any connection, plus the number of requests that were
  ever dropped while they waited for it, because the client went away or the lifetime of the connection
  ended: these are never taken off again.\<close>

theorem upstream_counters:
  assumes "run X F path es s" "sv_phase s \<noteq> Terminated"
    and "l < length (w_store (sv_world s))" "i < length (lb_upstreams (w_store (sv_world s) ! l))"
  shows "active_connections (lb_upstreams (w_store (sv_world s) ! l) ! i)
         = of_nat (inflight (l, i) (tasks s) + count_list (concat (map lost es)) (l, i))"
proof -
  have "placed (l, i) (counters (sv_world s))" using assms(3,4) unfolding placed_counters by blast
  from balancedD(5) [OF run_balanced [OF assms(1,2), unfolded ledger_def] this] assms(3,4) show ?thesis
    by (simp add: counters_def conn_view_def)
qed

section \<open>Witnesses\<close>

text \<open>
  The request of the example goes on to its upstream, and its client goes away: the counter of the
  upstream stays at one.
\<close>

lemma upstream_example:
  fixes w :: "unit world"
  assumes "request_set (ctx_headers ctx) = []" "w_store w = w_store started_example"
  shows "\<exists>st w'. resume_body (x_http answering) ctx rq_example remote 0 None (Inr []) w = Some (st, w')
                \<and> at_upstream st = Some (0, 0)"
proof -
  obtain w1 where c: "choose_upstream 0 None 0 [] w = (Some 0, w1)" "upstream_addr 0 0 w1 = ''http://a''"
    using choose_started [OF assms(2)] by blast
  obtain n where n: "unat (max_attempts ctx (rq_method rq_example) []) = Suc n" using max_attempts_pos by blast
  obtain rq where "build_request (x_http answering) (make_attempt ctx rq_example remote ''http://a'' [] False) = Inr rq"
    using attempt_example [OF assms(1), of remote w] by (auto simp: attempt_proxy_def split: sum.splits)
  with c show ?thesis by (simp add: resume_body_def n Let_def)
qed


theorem upstream_counters_witness:
  "\<exists>s d. run answering lib_example ''c'' (Cancelled 0 (Some (0, 0)) # Resumed 0 0 # Requested 0 d # run_events) s
     \<and> tasks s = {#} \<and> active_connections (lb_upstreams (w_store (sv_world s) ! 0) ! 0) = 1"
proof -
  obtain s svc w' where s: "run answering lib_example ''c'' run_events s" "sv_sessions s = [Serving svc []]"
      "request_set (ctx_headers (svc_ctx svc)) = []" "sv_phase s = Accepting" "w_store w' = w_store started_example"
      "begin_request (x_http answering) (svc_ctx svc) rq_example (svc_client_addr svc) (sv_world s)
         = Some (Some 0, AwaitBody 0 None, w')"
    using request_example by metis
  let ?d = "served_log svc (sv_world s) (AwaitBody 0 None :: ((string \<times> string) list, unit) rq_state)"
  let ?tk = "request_task rq_example (w_clock (sv_world s)) (Some 0) (AwaitBody 0 None)"
  let ?s1 = "set_tasks 0 svc ([] @ [?tk]) w' s"
  obtain st w2 where st: "resume_body (x_http answering) (svc_ctx svc) rq_example (svc_client_addr svc) 0 None (Inr []) w'
      = Some (st, w2)" "at_upstream st = Some (0, 0)"
    using upstream_example [OF s(3,5)] by blast
  let ?tk2 = "?tk\<lparr>tk_state := st\<rparr>"
  let ?s2 = "set_tasks 0 svc ([?tk][0 := ?tk2]) w2 ?s1"
  let ?s3 = "set_tasks 0 svc (remove_nth 0 [?tk2]) (drop_tasks [[?tk2] ! 0] (sv_world ?s2)) ?s2"
  have "run answering lib_example ''c'' (Requested 0 ?d # run_events) ?s1"
    by (rule srv.exec_step [OF s(1)], rule server_step.request [OF _ _ s(6)]) (simp_all add: s)
  moreover have "task_step answering (svc_ctx svc) (svc_client_addr svc) ?tk w' ?tk2 w2"
    by (rule task_step.body [where l = 0 and sv = None and C = "x_collect answering w'" and collected = "Inr []"])
      (simp_all add: request_task_def st collect_example rq_example_def [THEN arg_cong, of rq_body])
  then have "server_step answering lib_example ?s1 (Resumed 0 0) ?s2"
    by (intro server_step.resume) (simp_all add: s)
  ultimately have "run answering lib_example ''c'' (Resumed 0 0 # Requested 0 ?d # run_events) ?s2"
    by (rule srv.exec_step)
  moreover have "server_step answering lib_example ?s2 (Cancelled 0 (at_upstream (tk_state ([?tk2] ! 0)))) ?s3"
    by (rule server_step.cancel) (use st(2) in \<open>auto simp: s waiting_def split: rq_state.splits\<close>)
  ultimately have r: "run answering lib_example ''c'' (Cancelled 0 (Some (0, 0)) # Resumed 0 0 # Requested 0 ?d # run_events) ?s3"
    using st(2) srv.exec_step by fastforce
  have t: "tasks ?s3 = {#}" by (simp add: tasks_def s remove_nth_def)
  have ph: "sv_phase ?s3 \<noteq> Terminated" by (simp add: s)
  have "placed (0, 0) (counters (sv_world ?s3))"
    by (rule balancedD(3) [OF run_balanced [OF r ph, unfolded ledger_def]]) (simp add: map_filter_simps)
  then have store: "0 < length (w_store (sv_world ?s3))" "0 < length (lb_upstreams (w_store (sv_world ?s3) ! 0))"
    unfolding placed_counters by blast+
  from upstream_counters [OF r ph store] t st r show ?thesis
    by (intro exI [of _ ?s3] exI [of _ ?d] conjI) (simp_all add: s run_events_def map_filter_simps)
qed

end
