(* ===== verification/Pool.thy ===== *)
theory Pool
  imports Prelude
begin

text \<open>
  The buffer pool of \<open>src/pool.rs\<close>. \<open>ArrayQueue\<close> of \<open>crossbeam\<close> is a bounded first-in first-out queue:
  its operations are an interface, stated as a locale, and the pool is defined over any implementation of
  it. A \<open>BytesMut\<close> is its content and its capacity; the allocator is free to give more capacity than asked,
  so it is an argument. A clone of a pool is another handle on the same queue, hence the same value.
\<close>

section \<open>The queue\<close>

record ('q, 'a) array_queue =
  q_new :: "nat \<Rightarrow> 'q"
  q_push :: "'a \<Rightarrow> 'q \<Rightarrow> 'a option \<times> 'q"
  q_pop :: "'q \<Rightarrow> 'a option \<times> 'q"
  q_len :: "'q \<Rightarrow> nat"
  q_capacity :: "'q \<Rightarrow> nat"

text \<open>
  What the crate documents, over the sequence of elements a queue holds: a push appends unless the queue
  is full, when it returns the element; a pop takes the oldest element; the capacity never changes.
\<close>

locale bounded_queue =
  fixes Q :: "('q, 'a) array_queue" and elems :: "'q \<Rightarrow> 'a list"
  assumes new: "0 < n \<Longrightarrow> elems (q_new Q n) = [] \<and> q_capacity Q (q_new Q n) = n"
    and push: "q_push Q x q = (r, q') \<Longrightarrow>
       (if length (elems q) < q_capacity Q q then r = None \<and> elems q' = elems q @ [x]
        else r = Some x \<and> elems q' = elems q) \<and> q_capacity Q q' = q_capacity Q q"
    and pop: "q_pop Q q = (r, q') \<Longrightarrow>
       (case elems q of [] \<Rightarrow> r = None \<and> elems q' = [] | x # xs \<Rightarrow> r = Some x \<and> elems q' = xs)
       \<and> q_capacity Q q' = q_capacity Q q"
    and len: "q_len Q q = length (elems q)"

text \<open>A list with its bound is such a queue.\<close>

definition list_queue :: "(nat \<times> 'a list, 'a) array_queue" where
  "list_queue =
     \<lparr>q_new = (\<lambda>n. (n, [])),
      q_push = (\<lambda>x (n, xs). if length xs < n then (None, (n, xs @ [x])) else (Some x, (n, xs))),
      q_pop = (\<lambda>(n, xs). case xs of [] \<Rightarrow> (None, (n, [])) | x # ys \<Rightarrow> (Some x, (n, ys))),
      q_len = (\<lambda>(n, xs). length xs), q_capacity = fst\<rparr>"

interpretation lq: bounded_queue list_queue snd
  by unfold_locales (auto simp: list_queue_def split: list.splits if_splits)

section \<open>Definitions\<close>

record bytes_mut =
  bm_data :: string
  bm_capacity :: nat

record 'q buffer_pool =
  pool_queue :: 'q
  pool_buf_capacity :: usize

text \<open>A buffer on loan; \<open>None\<close> after it was taken out of its guard.\<close>

record pooled_buf =
  pb_buf :: "bytes_mut option"
  pb_capacity :: usize

definition default_buf_capacity :: usize where
  "default_buf_capacity = 16 * 1024"

definition default_pool_size :: usize where
  "default_pool_size = 4096"

text \<open>\<open>BytesMut::with_capacity\<close> then \<open>reserve\<close> of the same size.\<close>

definition fresh_buffer :: "(nat \<Rightarrow> nat) \<Rightarrow> usize \<Rightarrow> bytes_mut" where
  "fresh_buffer grow c = \<lparr>bm_data = [], bm_capacity = grow (unat c)\<rparr>"

fun push_all :: "('q, 'a) array_queue \<Rightarrow> 'a list \<Rightarrow> 'q \<Rightarrow> 'q" where
  "push_all Q [] q = q"
| "push_all Q (b # bs) q = push_all Q bs (snd (q_push Q b q))"

definition pool_new :: "('q, bytes_mut) array_queue \<Rightarrow> (nat \<Rightarrow> nat) \<Rightarrow> usize \<Rightarrow> usize \<Rightarrow> 'q buffer_pool" where
  "pool_new Q grow sz buf_capacity =
     (let sz = max sz 64;
          buf_capacity = max buf_capacity 1024;
          q = push_all Q (replicate (unat sz) (fresh_buffer grow buf_capacity)) (q_new Q (unat sz))
      in \<lparr>pool_queue = q, pool_buf_capacity = buf_capacity\<rparr>)"

definition pool_with_defaults :: "('q, bytes_mut) array_queue \<Rightarrow> (nat \<Rightarrow> nat) \<Rightarrow> 'q buffer_pool" where
  "pool_with_defaults Q grow = pool_new Q grow default_pool_size default_buf_capacity"

definition acquire ::
  "('q, bytes_mut) array_queue \<Rightarrow> (nat \<Rightarrow> nat) \<Rightarrow> 'q buffer_pool \<Rightarrow> pooled_buf \<times> 'q buffer_pool" where
  "acquire Q grow p =
     (case q_pop Q (pool_queue p) of
        (r, q) \<Rightarrow>
          (\<lparr>pb_buf = Some (case r of Some b \<Rightarrow> b | None \<Rightarrow> fresh_buffer grow (pool_buf_capacity p)),
            pb_capacity = pool_buf_capacity p\<rparr>,
           p\<lparr>pool_queue := q\<rparr>))"

definition pool_len :: "('q, bytes_mut) array_queue \<Rightarrow> 'q buffer_pool \<Rightarrow> nat" where
  "pool_len Q p = q_len Q (pool_queue p)"

definition pool_capacity :: "('q, bytes_mut) array_queue \<Rightarrow> 'q buffer_pool \<Rightarrow> nat" where
  "pool_capacity Q p = q_capacity Q (pool_queue p)"

text \<open>\<open>as_mut\<close> gives access to the buffer, \<open>into_inner\<close> takes it; both panic when it is gone.\<close>

definition as_mut :: "(bytes_mut \<Rightarrow> bytes_mut) \<Rightarrow> pooled_buf \<Rightarrow> pooled_buf option" where
  "as_mut f b = (case pb_buf b of None \<Rightarrow> None | Some x \<Rightarrow> Some (b\<lparr>pb_buf := Some (f x)\<rparr>))"

definition into_inner :: "pooled_buf \<Rightarrow> (bytes_mut \<times> pooled_buf) option" where
  "into_inner b = (case pb_buf b of None \<Rightarrow> None | Some x \<Rightarrow> Some (x, b\<lparr>pb_buf := None\<rparr>))"

text \<open>\<open>Drop\<close>: a buffer that did not grow too much goes back, cleared; \<open>capacity * 2\<close> wraps.\<close>

definition drop_buf :: "('q, bytes_mut) array_queue \<Rightarrow> pooled_buf \<Rightarrow> 'q buffer_pool \<Rightarrow> 'q buffer_pool" where
  "drop_buf Q b p =
     (case pb_buf b of
        None \<Rightarrow> p
      | Some x \<Rightarrow>
          if bm_capacity x \<le> unat (pb_capacity b * 2)
          then p\<lparr>pool_queue := snd (q_push Q (x\<lparr>bm_data := []\<rparr>) (pool_queue p))\<rparr>
          else p)"

section \<open>Runs\<close>

text \<open>
  The pool and the guards on loan. A loan is acquired, its buffer is filled and perhaps grown, and the
  guard is dropped, with its buffer or after the buffer was taken out.
\<close>

datatype pool_op = Acquire | Mutate nat "bytes_mut \<Rightarrow> bytes_mut" | DropLoan nat | TakeAndDrop nat

definition without :: "nat \<Rightarrow> 'a list \<Rightarrow> 'a list" where
  "without i xs = take i xs @ drop (Suc i) xs"

definition pool_step ::
  "('q, bytes_mut) array_queue \<Rightarrow> (nat \<Rightarrow> nat) \<Rightarrow> 'q buffer_pool \<times> pooled_buf list \<Rightarrow> pool_op
     \<Rightarrow> 'q buffer_pool \<times> pooled_buf list" where
  "pool_step Q grow s e =
     (case s of (p, loans) \<Rightarrow>
        (case e of
           Acquire \<Rightarrow> (case acquire Q grow p of (b, p') \<Rightarrow> (p', loans @ [b]))
         | Mutate i f \<Rightarrow>
             if i < length loans
             then (case as_mut f (loans ! i) of None \<Rightarrow> s | Some b \<Rightarrow> (p, loans[i := b])) else s
         | DropLoan i \<Rightarrow> if i < length loans then (drop_buf Q (loans ! i) p, without i loans) else s
         | TakeAndDrop i \<Rightarrow>
             if i < length loans
             then (case into_inner (loans ! i) of
                     None \<Rightarrow> s | Some (x, b) \<Rightarrow> (drop_buf Q b p, without i loans))
             else s))"

definition pool_run ::
  "('q, bytes_mut) array_queue \<Rightarrow> (nat \<Rightarrow> nat) \<Rightarrow> 'q buffer_pool \<times> pooled_buf list \<Rightarrow> pool_op list
     \<Rightarrow> 'q buffer_pool \<times> pooled_buf list" where
  "pool_run Q grow s es = foldl (pool_step Q grow) s es"

section \<open>The invariant\<close>

text \<open>The largest capacity a buffer in the pool can have.\<close>

definition cap_bound :: "(nat \<Rightarrow> nat) \<Rightarrow> usize \<Rightarrow> nat" where
  "cap_bound grow c = max (grow (unat c)) (unat (c * 2))"

definition clean :: "(nat \<Rightarrow> nat) \<Rightarrow> usize \<Rightarrow> bytes_mut \<Rightarrow> bool" where
  "clean grow c b \<longleftrightarrow> bm_data b = [] \<and> bm_capacity b \<le> cap_bound grow c"

definition pool_inv ::
  "('q, bytes_mut) array_queue \<Rightarrow> ('q \<Rightarrow> bytes_mut list) \<Rightarrow> (nat \<Rightarrow> nat) \<Rightarrow> nat \<Rightarrow> usize
     \<Rightarrow> 'q buffer_pool \<times> pooled_buf list \<Rightarrow> bool" where
  "pool_inv Q elems grow n c s \<longleftrightarrow>
     q_capacity Q (pool_queue (fst s)) = n \<and> length (elems (pool_queue (fst s))) \<le> n
     \<and> pool_buf_capacity (fst s) = c \<and> list_all (clean grow c) (elems (pool_queue (fst s)))
     \<and> list_all (\<lambda>b. pb_capacity b = c) (snd s)"

lemma clean_fresh: "clean grow c (fresh_buffer grow c)"
  by (simp add: clean_def fresh_buffer_def cap_bound_def)

lemma list_all_without: "list_all P xs \<Longrightarrow> list_all P (without i xs)"
  by (auto simp: list_all_iff without_def dest: in_set_takeD in_set_dropD)

context bounded_queue
begin

lemma push_all_elems:
  assumes "length (elems q) + length bs \<le> q_capacity Q q"
  shows "elems (push_all Q bs q) = elems q @ bs \<and> q_capacity Q (push_all Q bs q) = q_capacity Q q"
  using assms
proof (induction bs arbitrary: q)
  case (Cons b bs)
  obtain r q' where p: "q_push Q b q = (r, q')" by (cases "q_push Q b q")
  with push [OF p] Cons show ?case by simp
qed simp

end

lemma pool_new_inv:
  assumes "bounded_queue Q elems"
  shows "pool_inv Q elems grow (unat (max sz 64)) (max c 1024) (pool_new Q grow sz c, [])
         \<and> pool_len Q (pool_new Q grow sz c) = unat (max sz 64)"
proof -
  let ?n = "unat (max sz 64)"
  have "0 < ?n"
  proof -
    have "(64 :: usize) \<le> max sz 64" by simp
    then have "unat (64 :: usize) \<le> ?n" by (simp only: word_le_nat_alt)
    then show ?thesis by simp
  qed
  note n = bounded_queue.new [OF assms this]
  let ?bs = "replicate ?n (fresh_buffer grow (max c 1024))"
  have "elems (push_all Q ?bs (q_new Q ?n)) = ?bs" "q_capacity Q (push_all Q ?bs (q_new Q ?n)) = ?n"
    using bounded_queue.push_all_elems [OF assms, of "q_new Q ?n" ?bs] n by simp_all
  then show ?thesis
    by (simp add: pool_new_def pool_inv_def pool_len_def bounded_queue.len [OF assms] Let_def
        list_all_iff clean_fresh)
qed

lemma drop_buf_inv:
  assumes "bounded_queue Q elems" "pool_inv Q elems grow n c (p, ls)" "pb_capacity b = c"
  shows "pool_inv Q elems grow n c (drop_buf Q b p, ls)"
proof (cases "pb_buf b")
  case (Some x)
  obtain r q where q: "q_push Q (x\<lparr>bm_data := []\<rparr>) (pool_queue p) = (r, q)"
    by (cases "q_push Q (x\<lparr>bm_data := []\<rparr>) (pool_queue p)")
  show ?thesis
    using bounded_queue.push [OF assms(1) q] assms(2,3) Some
    by (auto simp: drop_buf_def pool_inv_def q clean_def cap_bound_def split: if_splits)
qed (use assms in \<open>simp add: drop_buf_def\<close>)

lemma acquire_inv:
  assumes "bounded_queue Q elems" "pool_inv Q elems grow n c (p, ls)" "acquire Q grow p = (b, p')"
  shows "pool_inv Q elems grow n c (p', ls @ [b]) \<and> (\<exists>x. pb_buf b = Some x \<and> clean grow c x)"
proof -
  obtain r q where q: "q_pop Q (pool_queue p) = (r, q)" by (cases "q_pop Q (pool_queue p)")
  show ?thesis
    using bounded_queue.pop [OF assms(1) q] assms(2,3) clean_fresh [of grow c]
    by (auto simp: acquire_def q pool_inv_def split: list.splits)
qed

lemma pool_step_inv:
  assumes "bounded_queue Q elems" "pool_inv Q elems grow n c s"
  shows "pool_inv Q elems grow n c (pool_step Q grow s e)"
proof -
  obtain p ls where s: "s = (p, ls)" by (cases s)
  have loan: "pb_capacity (ls ! i) = c" if "i < length ls" for i
    using assms(2) that by (simp add: s pool_inv_def list_all_length)
  have rest: "pool_inv Q elems grow n c (p, without i ls)" for i
    using assms(2) by (simp add: s pool_inv_def list_all_without)
  show ?thesis
  proof (cases e)
    case Acquire
    then show ?thesis
      using acquire_inv [OF assms(1) assms(2) [unfolded s]] by (simp add: pool_step_def s split: prod.split)
  next
    case (Mutate i f)
    then show ?thesis
      using assms(2) loan by (auto simp: pool_step_def s as_mut_def pool_inv_def list_all_length nth_list_update
          split: option.split)
  next
    case (DropLoan i)
    then show ?thesis
      using assms(2) loan drop_buf_inv [OF assms(1) rest] by (simp add: pool_step_def s)
  next
    case (TakeAndDrop i)
    then show ?thesis
      using assms(2) rest by (auto simp: pool_step_def s into_inner_def drop_buf_def split: option.split)
  qed
qed

lemma pool_run_inv:
  assumes "bounded_queue Q elems" "pool_inv Q elems grow n c s"
  shows "pool_inv Q elems grow n c (pool_run Q grow s es)"
  unfolding pool_run_def using assms(2)
  by (induction es arbitrary: s) (simp_all add: pool_step_inv [OF assms(1)])

section \<open>Properties\<close>

text \<open>C27. The buffer pool bounds memory and leaks no data. It starts full; and after any sequence of
  acquiring, filling, growing, taking and dropping buffers it holds at most its capacity, its capacity
  is the requested size (64 at least), every buffer in it has a bounded capacity, and the next buffer
  it hands out is empty: nothing a previous user wrote can be read from it.\<close>

theorem pool_bounded_and_clean:
  assumes "bounded_queue Q elems"
    and "pool_run Q grow (pool_new Q grow sz c, []) es = (p, loans)" "acquire Q grow p = (b, p')"
  shows "pool_len Q (pool_new Q grow sz c) = unat (max sz 64)
         \<and> pool_len Q p \<le> pool_capacity Q p \<and> pool_capacity Q p = unat (max sz 64)
         \<and> (\<forall>x \<in> set (elems (pool_queue p)). bm_capacity x \<le> cap_bound grow (max c 1024))
         \<and> (\<exists>x. pb_buf b = Some x \<and> bm_data x = [] \<and> bm_capacity x \<le> cap_bound grow (max c 1024))"
proof -
  note new = pool_new_inv [OF assms(1), of grow sz c]
  have inv: "pool_inv Q elems grow (unat (max sz 64)) (max c 1024) (p, loans)"
    using pool_run_inv [OF assms(1) conjunct1 [OF new], of es] assms(2) by simp
  show ?thesis
    using new inv acquire_inv [OF assms(1) inv assms(3)]
    by (auto simp: pool_inv_def pool_len_def pool_capacity_def bounded_queue.len [OF assms(1)] clean_def list_all_iff)
qed

theorem pool_bounded_and_clean_witness:
  "\<exists>p loans b p' x. pool_run list_queue id (pool_new list_queue id 0 0, [])
       [Acquire, Mutate 0 (\<lambda>b. b\<lparr>bm_data := ''secret''\<rparr>), DropLoan 0] = (p, loans)
     \<and> acquire list_queue id p = (b, p') \<and> pool_len list_queue p \<le> 64
     \<and> pb_buf b = Some x \<and> bm_data x = []"
proof -
  obtain p loans where r: "pool_run list_queue id (pool_new list_queue id 0 0, [])
      [Acquire, Mutate 0 (\<lambda>b. b\<lparr>bm_data := ''secret''\<rparr>), DropLoan 0] = (p, loans)"
    by fastforce
  obtain b p' where a: "acquire list_queue id p = (b, p')" by fastforce
  have "unat (max (0 :: usize) 64) = 64" by simp
  with pool_bounded_and_clean [OF lq.bounded_queue_axioms r a] r a show ?thesis by auto
qed

end
