(* ===== verification/LoadShed.thy ===== *)
theory LoadShed
  imports Prelude Steps
begin

text \<open>
  The load-shedding middleware of \<open>src/middleware/load_shed.rs\<close>. A call increments the shared counter,
  looks at the value it had, and either takes the increment back and answers 503, or runs the inner
  service and decrements when that completes. The two updates of the counter are separate atomic steps,
  so calls on several threads interleave between them. A future that is dropped before it completes
  never decrements.
\<close>

section \<open>Definitions\<close>

record load_shed =
  max_concurrency :: usize
  in_flight :: usize

definition load_shed_new :: "usize \<Rightarrow> usize \<Rightarrow> load_shed" where
  "load_shed_new m counter = \<lparr>max_concurrency = m, in_flight = counter\<rparr>"

text \<open>\<open>fetch_add(1)\<close> returns the previous value.\<close>

definition call_enter :: "load_shed \<Rightarrow> usize \<times> load_shed" where
  "call_enter s = (in_flight s, s\<lparr>in_flight := in_flight s + 1\<rparr>)"

definition fetch_sub_one :: "load_shed \<Rightarrow> load_shed" where
  "fetch_sub_one s = s\<lparr>in_flight := in_flight s - 1\<rparr>"

text \<open>The decision on the value seen: \<open>Inl 503\<close>, with the increment taken back, or the inner service.\<close>

definition call_decide :: "usize \<Rightarrow> load_shed \<Rightarrow> (nat + unit) \<times> load_shed" where
  "call_decide current s =
     (if current \<ge> max_concurrency s then (Inl 503, fetch_sub_one s) else (Inr (), s))"

text \<open>The end of the returned future.\<close>

definition call_complete :: "load_shed \<Rightarrow> load_shed" where
  "call_complete s = fetch_sub_one s"

section \<open>Calls on many threads\<close>

text \<open>
  The counter, the calls between their two updates with the value they saw, the calls inside the inner
  service and the futures that were dropped there. There are fewer than \<open>2 ^ 64\<close> of them.
\<close>

record shed_system =
  counter :: load_shed
  arriving :: "usize list"
  running :: nat
  abandoned :: nat

definition calls :: "shed_system \<Rightarrow> nat" where
  "calls s = length (arriving s) + running s + abandoned s"

datatype shed_event = Enter | Shed | Admit | Complete | Abandon

inductive shed_step :: "shed_system \<Rightarrow> shed_event \<Rightarrow> shed_system \<Rightarrow> bool" where
  enter: "shed_step s Enter (s\<lparr>counter := c, arriving := arriving s @ [current]\<rparr>)"
    if "call_enter (counter s) = (current, c)" "calls s + 1 < 2 ^ 64"
| shed: "shed_step s Shed (s\<lparr>counter := c, arriving := xs @ ys\<rparr>)"
    if "arriving s = xs @ current # ys" "call_decide current (counter s) = (Inl status, c)"
| admit: "shed_step s Admit (s\<lparr>counter := c, arriving := xs @ ys, running := running s + 1\<rparr>)"
    if "arriving s = xs @ current # ys" "call_decide current (counter s) = (Inr (), c)"
| complete: "shed_step s Complete (s\<lparr>counter := call_complete (counter s), running := running s - 1\<rparr>)"
    if "0 < running s"
| abandon: "shed_step s Abandon (s\<lparr>running := running s - 1, abandoned := abandoned s + 1\<rparr>)"
    if "0 < running s"

definition shed_start :: "usize \<Rightarrow> shed_system" where
  "shed_start m = \<lparr>counter = load_shed_new m 0, arriving = [], running = 0, abandoned = 0\<rparr>"

definition shed_run :: "usize \<Rightarrow> shed_event list \<Rightarrow> shed_system \<Rightarrow> bool" where
  "shed_run m es s = steps shed_step (shed_start m) es s"

interpretation shd: step_system "\<lambda>s. s = shed_start m" shed_step "shed_run m" for m
  by unfold_locales (simp add: shed_run_def)

section \<open>The invariant\<close>

text \<open>The calls that are running or will be admitted.\<close>

definition admissible :: "shed_system \<Rightarrow> nat" where
  "admissible s =
     running s + length (filter (\<lambda>c. c < max_concurrency (counter s)) (arriving s))"

definition shed_inv :: "usize \<Rightarrow> shed_system \<Rightarrow> bool" where
  "shed_inv m s \<longleftrightarrow>
     max_concurrency (counter s) = m \<and> in_flight (counter s) = of_nat (calls s) \<and> calls s < 2 ^ 64
     \<and> admissible s \<le> unat m"

lemma unat_calls: "n < 2 ^ 64 \<Longrightarrow> unat (of_nat n :: usize) = n"
  by (simp only: unat_of_nat) simp

lemma admissible_le_calls: "admissible s \<le> calls s"
  using length_filter_le [of "\<lambda>c. c < max_concurrency (counter s)" "arriving s"]
  unfolding admissible_def calls_def by linarith

lemma dec_inv:
  assumes "shed_inv m s" "calls s = Suc (calls s')" "admissible s' \<le> admissible s"
    and "counter s' = fetch_sub_one (counter s)"
  shows "shed_inv m s'"
  using assms by (auto simp: shed_inv_def fetch_sub_one_def)

lemma step_inv:
  assumes "shed_step s e s'" "shed_inv m s"
  shows "shed_inv m s'"
  using assms
proof (induction rule: shed_step.induct)
  case (enter s current c)
  then have c: "current = of_nat (calls s)" "c = (counter s)\<lparr>in_flight := of_nat (calls s) + 1\<rparr>"
    by (auto simp: call_enter_def shed_inv_def)
  let ?s = "s\<lparr>counter := c, arriving := arriving s @ [current]\<rparr>"
  have t: "calls ?s = calls s + 1" by (simp add: calls_def)
  have "admissible ?s \<le> unat m"
  proof (cases "current < m")
    case True
    then have "calls s < unat m"
      using enter c by (simp add: word_less_nat_alt unat_calls)
    moreover have "admissible ?s = admissible s + 1"
      using True enter c by (simp add: admissible_def shed_inv_def)
    ultimately show ?thesis using admissible_le_calls [of s] by simp
  next
    case False
    then show ?thesis using enter c by (auto simp: admissible_def shed_inv_def)
  qed
  with enter c t show ?case by (simp add: shed_inv_def)
next
  case (shed s xs current ys status c)
  then have c: "c = fetch_sub_one (counter s)" and cur: "max_concurrency (counter s) \<le> current"
    by (auto simp: call_decide_def split: if_splits)
  show ?case
    by (rule dec_inv [OF shed.prems])
      (use shed.hyps cur in \<open>simp_all add: c calls_def admissible_def fetch_sub_one_def\<close>)
next
  case (admit s xs current ys c)
  then show ?case
    by (auto simp: shed_inv_def call_decide_def admissible_def calls_def add.commute split: if_splits)
next
  case (complete s)
  show ?case
    by (rule dec_inv [OF complete.prems])
      (use complete.hyps in \<open>simp_all add: call_complete_def calls_def admissible_def fetch_sub_one_def\<close>)
next
  case (abandon s)
  then show ?case by (auto simp: shed_inv_def admissible_def calls_def)
qed

lemma shed_run_inv:
  assumes "shed_run m es s"
  shows "shed_inv m s"
proof (rule shd.invariant [OF assms])
  show "shed_inv m s" if "s = shed_start m" for s
    using that by (simp add: shed_start_def load_shed_new_def shed_inv_def calls_def admissible_def)
qed (rule step_inv)

text \<open>Which calls were dropped while they ran.\<close>

lemma run_abandoned:
  assumes "shed_run m es s"
  shows "abandoned s = count_list es Abandon"
proof (rule shd.trace_invariant [OF assms])
  show "abandoned s' = count_list (e # es) Abandon"
    if "abandoned s = count_list es Abandon" "shed_step s e s'" for es s e s'
    using that(2,1) by cases simp_all
qed (simp add: shed_start_def)

section \<open>Properties\<close>

text \<open>C26. Load shedding is exact under every interleaving: the inner service never runs more than the
  configured number of calls at once, and the counter is the number of calls that have entered and not
  left, together with the calls that were dropped while they ran, which are counted for ever: once as many
  were dropped as the limit allows, every new call is shed.\<close>

theorem load_shed_bound:
  assumes "shed_run m es s"
  shows "running s \<le> unat m
         \<and> unat (in_flight (counter s)) = length (arriving s) + running s + count_list es Abandon
         \<and> (unat m \<le> count_list es Abandon \<longrightarrow>
              (\<exists>c. call_decide (fst (call_enter (counter s))) (counter s) = (Inl 503, c)))"
proof -
  note inv = shed_run_inv [OF assms] and ab = run_abandoned [OF assms]
  have "running s \<le> unat m"
    using inv by (simp add: shed_inv_def admissible_def)
  moreover have f: "unat (in_flight (counter s)) = calls s"
    using inv by (simp add: shed_inv_def unat_calls)
  moreover have "max_concurrency (counter s) \<le> in_flight (counter s)" if "unat m \<le> abandoned s"
    using inv that f by (simp add: shed_inv_def word_le_nat_alt calls_def)
  ultimately show ?thesis
    by (auto simp: calls_def call_decide_def call_enter_def simp flip: ab)
qed

section \<open>Witness\<close>

theorem load_shed_bound_witness:
  "\<exists>s. shed_run 1 [Enter] s \<and> arriving s = [0] \<and> running s = 0 \<and> running s \<le> unat (1 :: usize)
       \<and> unat (in_flight (counter s)) = 1"
proof -
  let ?s = "shed_start 1\<lparr>counter := snd (call_enter (counter (shed_start 1))),
          arriving := arriving (shed_start 1) @ [fst (call_enter (counter (shed_start 1)))]\<rparr>"
  have "shed_step (shed_start 1) Enter ?s"
    by (rule shed_step.enter) (simp_all add: calls_def shed_start_def)
  then have r: "shed_run 1 [Enter] ?s"
    by (simp add: shed_run_def steps_Cons)
  have "arriving ?s = [0]" "running ?s = 0"
    by (simp_all add: shed_start_def call_enter_def load_shed_new_def)
  with load_shed_bound [OF r] r show ?thesis
    by (intro exI [of _ ?s]) simp
qed

end
