(* ===== verification/Json.thy ===== *)
theory Json
  imports Prelude
begin

text \<open>
  A reference reader of JSON texts without white space, against which the text the dashboard prints is
  checked: strings with the two-character escapes (the escape \<open>u\<close>, which is never printed, is not read),
  integers, booleans, arrays and objects. \<open>reads v t\<close> says that the reader turns \<open>t\<close> into \<open>v\<close> and leaves
  what follows; its rules compose.
\<close>

section \<open>The reader\<close>

datatype json = JStr string | JInt int | JBool bool | JArr "json list" | JObj "(string \<times> json) list"

fun json_escape :: "char \<Rightarrow> char option" where
  "json_escape c =
     (if c = CHR 0x22 \<or> c = CHR 0x5C \<or> c = CHR ''/'' then Some c
      else if c = CHR ''b'' then Some (CHR 0x08)
      else if c = CHR ''f'' then Some (CHR 0x0C)
      else if c = CHR ''n'' then Some (CHR 0x0A)
      else if c = CHR ''r'' then Some (CHR 0x0D)
      else if c = CHR ''t'' then Some (CHR 0x09)
      else None)"

text \<open>The characters of a string up to its closing quote.\<close>

fun read_chars :: "string \<Rightarrow> (string \<times> string) option" where
  "read_chars [] = None"
| "read_chars (c # s) =
     (if c = CHR 0x22 then Some ([], s)
      else if c = CHR 0x5C then
        (case s of
           [] \<Rightarrow> None
         | e # s' \<Rightarrow>
             (case json_escape e of
                None \<Rightarrow> None
              | Some x \<Rightarrow> map_option (\<lambda>(t, r). (x # t, r)) (read_chars s')))
      else if (of_char c :: nat) < 32 then None
      else map_option (\<lambda>(t, r). (c # t, r)) (read_chars s))"

fun read_string :: "string \<Rightarrow> (string \<times> string) option" where
  "read_string [] = None"
| "read_string (c # s) = (if c = CHR 0x22 then read_chars s else None)"

definition read_nat :: "string \<Rightarrow> (nat \<times> string) option" where
  "read_nat s =
     (let ds = takeWhile is_digit s
      in if ds = [] \<or> (hd ds = CHR ''0'' \<and> ds \<noteq> ''0'') then None
         else Some (digits_nat ds, dropWhile is_digit s))"

definition read_int :: "string \<Rightarrow> (int \<times> string) option" where
  "read_int s =
     (if s \<noteq> [] \<and> hd s = CHR ''-'' then map_option (\<lambda>(n, r). (- int n, r)) (read_nat (tl s))
      else map_option (\<lambda>(n, r). (int n, r)) (read_nat s))"

text \<open>Values, the items of an array and the members of an object; the fuel bounds the depth.\<close>

fun read_value :: "nat \<Rightarrow> string \<Rightarrow> (json \<times> string) option"
  and read_items :: "nat \<Rightarrow> string \<Rightarrow> (json list \<times> string) option"
  and read_members :: "nat \<Rightarrow> string \<Rightarrow> ((string \<times> json) list \<times> string) option" where
  "read_value 0 s = None"
| "read_value (Suc n) s =
     (if starts_with s [CHR 0x22] then map_option (map_prod JStr id) (read_string s)
      else if starts_with s ''[]'' then Some (JArr [], drop 2 s)
      else if starts_with s ''['' then map_option (map_prod JArr id) (read_items n (tl s))
      else if starts_with s ''{}'' then Some (JObj [], drop 2 s)
      else if starts_with s ''{'' then map_option (map_prod JObj id) (read_members n (tl s))
      else if starts_with s ''true'' then Some (JBool True, drop 4 s)
      else if starts_with s ''false'' then Some (JBool False, drop 5 s)
      else map_option (map_prod JInt id) (read_int s))"
| "read_items 0 s = None"
| "read_items (Suc n) s =
     (case read_value n s of
        Some (v, c # r) \<Rightarrow>
          if c = CHR '']'' then Some ([v], r)
          else if c = CHR '','' then map_option (map_prod (\<lambda>vs. v # vs) id) (read_items n r)
          else None
      | _ \<Rightarrow> None)"
| "read_members 0 s = None"
| "read_members (Suc n) s =
     (case read_string s of
        Some (k, d # s) \<Rightarrow>
          if d \<noteq> CHR '':'' then None
          else (case read_value n s of
                  Some (v, c # r) \<Rightarrow>
                    if c = CHR ''}'' then Some ([(k, v)], r)
                    else if c = CHR '','' then map_option (map_prod (\<lambda>kvs. (k, v) # kvs) id) (read_members n r)
                    else None
                | _ \<Rightarrow> None)
      | _ \<Rightarrow> None)"

text \<open>A whole text; its length bounds its depth.\<close>

definition parse_json :: "string \<Rightarrow> json option" where
  "parse_json s = (case read_value (Suc (length s)) s of Some (v, []) \<Rightarrow> Some v | _ \<Rightarrow> None)"

section \<open>What it reads\<close>

text \<open>Items separated by commas.\<close>

fun comma_separated :: "string list \<Rightarrow> string" where
  "comma_separated [] = []"
| "comma_separated (x # xs) = x @ concat (map (\<lambda>y. CHR '','' # y) xs)"

lemma comma_separated_Cons2 [simp]: "comma_separated (x # y # ys) = x @ CHR '','' # comma_separated (y # ys)"
  by simp

definition sep :: "string \<Rightarrow> bool" where
  "sep rest = (rest = [] \<or> \<not> is_digit (hd rest))"

definition reads :: "json \<Rightarrow> string \<Rightarrow> bool" where
  "reads v t = (\<forall>n rest. length t < n \<longrightarrow> sep rest \<longrightarrow> read_value n (t @ rest) = Some (v, rest))"

definition reads_string :: "string \<Rightarrow> string \<Rightarrow> bool" where
  "reads_string k t = (\<forall>rest. read_string (t @ rest) = Some (k, rest))"

lemma reads_parse: "reads v t \<Longrightarrow> parse_json t = Some v"
  unfolding reads_def parse_json_def by (drule spec [of _ "Suc (length t)"], drule spec [of _ "[]"]) (simp add: sep_def)

lemma sep_simps [simp]:
  "sep (CHR '','' # r)" "sep (CHR '']'' # r)" "sep (CHR ''}'' # r)"
  by (simp_all add: sep_def is_digit_def to_digit_def)

lemma reads_string_quote: "reads_string k t \<Longrightarrow> \<exists>u. t = CHR 0x22 # u"
  unfolding reads_string_def by (drule spec [of _ "[]"], cases t) (auto split: if_splits)

lemma read_nat_show:
  assumes "sep rest"
  shows "read_nat (show_nat n @ rest) = Some (n, rest)"
proof -
  have "show_nat n = ''0''" if "hd (show_nat n) = CHR ''0''"
  proof -
    have "n = 0" using that by (simp add: show_nat_leading)
    then show ?thesis by (simp add: show_nat.simps digit_char_eq_iff)
  qed
  with assms show ?thesis
    by (auto simp: read_nat_def Let_def takeWhile_is_digit_show_nat sep_def)
qed

lemma not_digit_hd: "hd (show_nat n @ r) \<noteq> c" if "\<not> is_digit c"
  using that is_digit_show_nat [of c n] by (cases "show_nat n") (auto simp: show_nat_nonempty)

lemma read_int_show: "sep rest \<Longrightarrow> read_int (show_int z @ rest) = Some (z, rest)"
  using not_digit_hd [of "CHR ''-''"]
  by (auto simp: read_int_def show_int_def read_nat_show is_digit_def to_digit_def)

lemma starts_with_hd: "starts_with s (c # p) \<Longrightarrow> s \<noteq> [] \<and> hd s = c"
  by (auto simp: starts_with_iff)

lemma hd_show_int: "hd (show_int z @ r) = CHR ''-'' \<or> is_digit (hd (show_int z @ r))"
  by (cases "show_nat (nat z)") (auto simp: show_int_def intro: is_digit_show_nat [of _ "nat z"])

lemma reads_int: "reads (JInt z) (show_int z)"
  unfolding reads_def
proof (intro allI impI)
  fix n rest assume "length (show_int z) < n" "sep rest"
  moreover from this obtain m where "n = Suc m" by (cases n) auto
  moreover have "\<not> starts_with (show_int z @ rest) (c # p)" if "\<not> is_digit c" "c \<noteq> CHR ''-''" for c p
    using that hd_show_int [of z rest] by (auto dest!: starts_with_hd)
  ultimately show "read_value n (show_int z @ rest) = Some (JInt z, rest)"
    by (simp add: read_int_show is_digit_def to_digit_def)
qed

lemma reads_nat: "reads (JInt (int k)) (show_nat k)"
  using reads_int [of "int k"] by (simp add: show_int_def)

lemma reads_bool: "reads (JBool b) (show_bool b)"
  unfolding reads_def
proof (intro allI impI)
  fix n rest assume "length (show_bool b) < n"
  then obtain m where "n = Suc m" by (cases n) auto
  then show "read_value n (show_bool b @ rest) = Some (JBool b, rest)"
    by (cases b) (simp_all add: show_bool_def starts_with_def)
qed

lemma reads_str: "reads_string s t \<Longrightarrow> reads (JStr s) t"
  unfolding reads_def
proof (intro allI impI)
  fix n rest assume t: "reads_string s t" and "length t < n"
  then obtain m where "n = Suc m" by (cases n) auto
  moreover obtain u where "t = CHR 0x22 # u" using reads_string_quote [OF t] by blast
  ultimately show "read_value n (t @ rest) = Some (JStr s, rest)"
    using t by (simp add: reads_string_def starts_with_def del: read_string.simps)
qed

text \<open>Arrays and objects, from their parts.\<close>

lemma read_items:
  assumes "list_all2 reads vs ts" "ts \<noteq> []" "length (comma_separated ts) + 1 < n"
  shows "read_items n (comma_separated ts @ CHR '']'' # rest) = Some (vs, rest)"
  using assms
proof (induction vs ts arbitrary: n rule: list_all2_induct)
  case (Cons v vs t ts)
  then obtain m where n: "n = Suc m" by (cases n) auto
  show ?case
  proof (cases ts)
    case Nil
    with Cons n show ?thesis by (simp add: reads_def)
  next
    case (Cons u us)
    then show ?thesis
      using Cons.IH [of m] Cons.prems Cons.hyps(1) n
      by (simp add: reads_def del: comma_separated.simps(2))
  qed
qed simp

definition reads_member :: "string \<times> json \<Rightarrow> string \<Rightarrow> bool" where
  "reads_member kv t = (\<exists>kt vt. t = kt @ CHR '':'' # vt \<and> reads_string (fst kv) kt \<and> reads (snd kv) vt)"

lemma reads_memberI: "reads_string k kt \<Longrightarrow> reads v vt \<Longrightarrow> reads_member (k, v) (kt @ CHR '':'' # vt)"
  by (auto simp: reads_member_def)

lemma read_members:
  assumes "list_all2 reads_member kvs ts" "ts \<noteq> []" "length (comma_separated ts) + 1 < n"
  shows "read_members n (comma_separated ts @ CHR ''}'' # rest) = Some (kvs, rest)"
  using assms
proof (induction kvs ts arbitrary: n rule: list_all2_induct)
  case (Cons kv kvs t ts)
  then obtain m where n: "n = Suc m" by (cases n) auto
  obtain k v kt vt where t: "kv = (k, v)" "t = kt @ CHR '':'' # vt" "reads_string k kt" "reads v vt"
    using Cons.hyps(1) by (cases kv) (auto simp: reads_member_def)
  show ?case
  proof (cases ts)
    case Nil
    with Cons n t show ?thesis by (simp add: reads_def reads_string_def)
  next
    case (Cons u us)
    then show ?thesis
      using Cons.IH [of m] Cons.prems Cons.hyps(2) n t
      by (simp add: reads_def reads_string_def del: comma_separated.simps(2))
  qed
qed simp

lemma reads_first: "reads v t \<Longrightarrow> \<not> starts_with (t @ r) '']''"
  unfolding reads_def
  by (drule spec [of _ "Suc (length t)"], drule spec [of _ "[]"], cases t)
    (auto simp: starts_with_def sep_def read_int_def read_nat_def is_digit_def to_digit_def)

lemma reads_arr:
  assumes "list_all2 reads vs ts"
  shows "reads (JArr vs) (''['' @ comma_separated ts @ '']'')"
  unfolding reads_def
proof (intro allI impI)
  fix n rest assume len: "length (''['' @ comma_separated ts @ '']'') < n"
  then obtain m where n: "n = Suc m" by (cases n) auto
  show "read_value n ((''['' @ comma_separated ts @ '']'') @ rest) = Some (JArr vs, rest)"
  proof (cases ts)
    case Nil
    with assms n show ?thesis by (simp add: starts_with_def)
  next
    case (Cons t us)
    with assms obtain v where "reads v t" by (auto simp: list_all2_Cons2)
    then have "\<not> starts_with (comma_separated ts @ r) '']''" for r
      using Cons by (simp add: reads_first)
    with read_items [OF assms, of m rest] Cons len n show ?thesis
      by (simp add: starts_with_def del: comma_separated.simps)
  qed
qed

lemma reads_obj:
  assumes "list_all2 reads_member kvs ts"
  shows "reads (JObj kvs) (''{'' @ comma_separated ts @ ''}'')"
  unfolding reads_def
proof (intro allI impI)
  fix n rest assume len: "length (''{'' @ comma_separated ts @ ''}'') < n"
  then obtain m where n: "n = Suc m" by (cases n) auto
  show "read_value n ((''{'' @ comma_separated ts @ ''}'') @ rest) = Some (JObj kvs, rest)"
  proof (cases ts)
    case Nil
    with assms n show ?thesis by (simp add: starts_with_def)
  next
    case (Cons t us)
    with assms obtain u where "t = CHR 0x22 # u"
      by (fastforce simp: list_all2_Cons2 reads_member_def dest: reads_string_quote)
    then have "\<not> starts_with (comma_separated ts @ r) ''}''" for r
      using Cons by (simp add: starts_with_def)
    with read_members [OF assms, of m rest] Cons len n show ?thesis
      by (simp add: starts_with_def del: comma_separated.simps)
  qed
qed

lemmas reads_rules = reads_int reads_nat reads_bool reads_str reads_arr reads_obj

end
