(* ===== verification/Stats.thy ===== *)
theory Stats
  imports Json RateLimit Metrics "HOL-Library.AList" "HOL-Library.Multiset"
begin

text \<open>
  The statistics of \<open>src/dashboard.rs\<close>: \<open>stats_json\<close> reads the text of \<open>Metrics::gather\<close> line by line,
  adds the samples up and prints the sums as JSON. The text encoder belongs to the \<open>prometheus\<close> crate, so
  the text is an argument; \<open>exposition\<close> is the text format that crate documents. A \<open>HashMap\<close> is an
  association list with distinct keys; the order in which it is iterated is an argument. The functions of
  \<open>str\<close> and \<open>f64\<close> the code calls are modelled first.
\<close>

section \<open>Text and numbers of the standard library\<close>

definition newline :: char where
  "newline = CHR 0x0A"

definition strip_cr :: "string \<Rightarrow> string" where
  "strip_cr s = (if s \<noteq> [] \<and> last s = CHR 0x0D then butlast s else s)"

text \<open>\<open>lines()\<close>: a final newline starts no line, and only a terminated line loses its carriage return.\<close>

definition str_lines :: "string \<Rightarrow> string list" where
  "str_lines s =
     (let ps = split newline s
      in map strip_cr (butlast ps) @ (if last ps = [] then [] else [last ps]))"

text \<open>A sign, if there is one: whether it is a minus, and the rest.\<close>

fun split_sign :: "string \<Rightarrow> bool \<times> string" where
  "split_sign [] = (False, [])"
| "split_sign (c # s) = (if c = CHR ''-'' then (True, s) else if c = CHR ''+'' then (False, s) else (False, c # s))"

fun parse_exp :: "string \<Rightarrow> int option" where
  "parse_exp [] = Some 0"
| "parse_exp (c # s) =
     (case split_sign s of
        (neg, ds) \<Rightarrow>
          if (c = CHR ''e'' \<or> c = CHR ''E'') \<and> ds \<noteq> [] \<and> list_all is_digit ds
          then Some (if neg then - int (digits_nat ds) else int (digits_nat ds))
          else None)"

definition pow10 :: "int \<Rightarrow> rat" where
  "pow10 e = (if 0 \<le> e then 10 ^ nat e else 1 / 10 ^ nat (- e))"

text \<open>Digits with an optional fraction and exponent, rounded to the nearest \<open>f64\<close>.\<close>

definition parse_number :: "string \<Rightarrow> f64 option" where
  "parse_number s =
     (let i = takeWhile is_digit s;
          r = dropWhile is_digit s;
          point = (r \<noteq> [] \<and> hd r = CHR ''.'');
          f = (if point then takeWhile is_digit (tl r) else []);
          r = (if point then dropWhile is_digit (tl r) else r)
      in if i = [] \<and> f = [] then None
         else map_option (\<lambda>e. round64 (of_nat (digits_nat (i @ f)) * pow10 (e - int (length f)))) (parse_exp r))"

text \<open>\<open>str::parse::<f64>\<close>.\<close>

definition parse_f64 :: "string \<Rightarrow> f64 option" where
  "parse_f64 s =
     (case split_sign s of
        (neg, r) \<Rightarrow>
          map_option (if neg then f64_neg else id)
            (if to_ascii_lowercase r = ''inf'' \<or> to_ascii_lowercase r = ''infinity'' then Some PInf
             else if to_ascii_lowercase r = ''nan'' then Some NaN
             else parse_number r))"

text \<open>\<open>as u64\<close> and \<open>as i64\<close> truncate towards zero and saturate; not a number gives 0.\<close>

fun as_u64 :: "f64 \<Rightarrow> u64" where
  "as_u64 (Fin x) = (if x < 0 then 0 else if 2 ^ 64 \<le> x then - 1 else of_int \<lfloor>x\<rfloor>)"
| "as_u64 PInf = - 1"
| "as_u64 NInf = 0"
| "as_u64 NaN = 0"

type_synonym i64 = int

fun as_i64 :: "f64 \<Rightarrow> i64" where
  "as_i64 (Fin x) = max (- (2 ^ 63)) (min (2 ^ 63 - 1) (if x < 0 then - \<lfloor>- x\<rfloor> else \<lfloor>x\<rfloor>))"
| "as_i64 PInf = 2 ^ 63 - 1"
| "as_i64 NInf = - (2 ^ 63)"
| "as_i64 NaN = 0"

text \<open>\<open>s.replace(c, r)\<close> for a character.\<close>

definition replace_char :: "char \<Rightarrow> string \<Rightarrow> string \<Rightarrow> string" where
  "replace_char c r s = concat (map (\<lambda>x. if x = c then r else [x]) s)"

section \<open>Reading the metrics\<close>

definition label :: "string \<Rightarrow> string \<Rightarrow> string option" where
  "label name_labels k =
     (let needle = k @ [CHR ''='', CHR 0x22]
      in case find_sub needle name_labels of
           None \<Rightarrow> None
         | Some idx \<Rightarrow>
             (let rest = drop (idx + length needle) name_labels
              in map_option (\<lambda>end. take end rest) (find_sub [CHR 0x22] rest)))"

record upstream_snap =
  snap_healthy :: bool
  snap_connections :: i64
  snap_requests :: u64

definition default_snap :: upstream_snap where
  "default_snap = \<lparr>snap_healthy = False, snap_connections = 0, snap_requests = 0\<rparr>"

record stats =
  st_requests_total :: u64
  st_retries :: u64
  st_active :: i64
  st_by_status :: "(string \<times> u64) list"
  st_by_method :: "(string \<times> u64) list"
  st_upstreams :: "(string \<times> upstream_snap) list"

definition stats_empty :: stats where
  "stats_empty =
     \<lparr>st_requests_total = 0, st_retries = 0, st_active = 0, st_by_status = [], st_by_method = [],
      st_upstreams = []\<rparr>"

text \<open>\<open>entry(k).or_insert(d)\<close>, updated by \<open>f\<close>.\<close>

definition entry :: "'v \<Rightarrow> ('v \<Rightarrow> 'v) \<Rightarrow> string \<Rightarrow> (string \<times> 'v) list \<Rightarrow> (string \<times> 'v) list" where
  "entry d f k m = AList.update k (f (case map_of m k of None \<Rightarrow> d | Some v \<Rightarrow> v)) m"

definition upd_snap :: "(upstream_snap \<Rightarrow> upstream_snap) \<Rightarrow> string \<Rightarrow> stats \<Rightarrow> stats" where
  "upd_snap f up st = st\<lparr>st_upstreams := entry default_snap f up (st_upstreams st)\<rparr>"

text \<open>The body of the loop for one sample: its name with the labels, and its value.\<close>

definition requests_sample :: "string \<Rightarrow> u64 \<Rightarrow> stats \<Rightarrow> stats" where
  "requests_sample name_labels v st =
     (let st = st\<lparr>st_requests_total := st_requests_total st + v\<rparr>;
          st = (case label name_labels ''status'' of
                  Some status \<Rightarrow> st\<lparr>st_by_status := entry 0 (\<lambda>n. n + v) status (st_by_status st)\<rparr>
                | None \<Rightarrow> st);
          st = (case label name_labels ''method'' of
                  Some method \<Rightarrow> st\<lparr>st_by_method := entry 0 (\<lambda>n. n + v) method (st_by_method st)\<rparr>
                | None \<Rightarrow> st)
      in case label name_labels ''upstream'' of
           Some up \<Rightarrow>
             if up \<noteq> ''none'' then upd_snap (\<lambda>s. s\<lparr>snap_requests := snap_requests s + v\<rparr>) up st else st
         | None \<Rightarrow> st)"

definition stats_sample :: "string \<Rightarrow> f64 \<Rightarrow> stats \<Rightarrow> stats" where
  "stats_sample name_labels value_f st =
     (if starts_with name_labels ''oxigate_requests_total{''
      then requests_sample name_labels (as_u64 value_f) st
      else if starts_with name_labels ''oxigate_upstream_health{''
      then (case label name_labels ''upstream'' of
              Some up \<Rightarrow> upd_snap (\<lambda>s. s\<lparr>snap_healthy := f64_le (Fin 1) value_f\<rparr>) up st
            | None \<Rightarrow> st)
      else if starts_with name_labels ''oxigate_upstream_connections{''
      then (case label name_labels ''upstream'' of
              Some up \<Rightarrow> upd_snap (\<lambda>s. s\<lparr>snap_connections := as_i64 value_f\<rparr>) up st
            | None \<Rightarrow> st)
      else if name_labels = ''oxigate_active_connections'' then st\<lparr>st_active := as_i64 value_f\<rparr>
      else if name_labels = ''oxigate_retries_total'' then st\<lparr>st_retries := as_u64 value_f\<rparr>
      else st)"

definition stats_line :: "string \<Rightarrow> stats \<Rightarrow> stats" where
  "stats_line line st =
     (if starts_with line ''#'' \<or> line = [] then st
      else (case rsplit_once (CHR '' '') line of
              None \<Rightarrow> st
            | Some (name_labels, value_s) \<Rightarrow>
                stats_sample name_labels (case parse_f64 value_s of Some v \<Rightarrow> v | None \<Rightarrow> Fin 0) st))"

definition stats_of_text :: "string \<Rightarrow> stats" where
  "stats_of_text text = fold stats_line (str_lines text) stats_empty"

section \<open>Printing JSON\<close>

definition json_str :: "string \<Rightarrow> string" where
  "json_str s =
     CHR 0x22 # replace_char (CHR 0x22) [CHR 0x5C, CHR 0x22] (replace_char (CHR 0x5C) [CHR 0x5C, CHR 0x5C] s)
       @ [CHR 0x22]"

text \<open>The entries of a map in the order of its iterator.\<close>

definition iter_map :: "(string list \<Rightarrow> string list) \<Rightarrow> (string \<times> 'v) list \<Rightarrow> (string \<times> 'v) list" where
  "iter_map order m = map (\<lambda>k. (k, the (map_of m k))) (order (map fst m))"

definition map_to_json_obj :: "(string list \<Rightarrow> string list) \<Rightarrow> (string \<times> u64) list \<Rightarrow> string" where
  "map_to_json_obj order m =
     ''{'' @ comma_separated (map (\<lambda>(k, v). json_str k @ '':'' @ show_nat (unat v)) (iter_map order m)) @ ''}''"

definition snap_json :: "string \<Rightarrow> upstream_snap \<Rightarrow> string" where
  \<open>snap_json addr s =
     ''{"address":'' @ json_str addr @ '',"healthy":'' @ show_bool (snap_healthy s)
     @ '',"connections":'' @ show_int (snap_connections s) @ '',"requests":'' @ show_nat (unat (snap_requests s))
     @ ''}''\<close>

text \<open>The orders in which the three maps are iterated.\<close>

record hash_orders =
  order_status :: "string list \<Rightarrow> string list"
  order_method :: "string list \<Rightarrow> string list"
  order_upstreams :: "string list \<Rightarrow> string list"

definition stats_print :: "hash_orders \<Rightarrow> string \<Rightarrow> nat \<Rightarrow> u64 \<Rightarrow> u64 \<Rightarrow> stats \<Rightarrow> string" where
  \<open>stats_print ord version uptime allows rejects st =
     ''{"version":'' @ json_str version @ '',"uptime_secs":'' @ show_nat uptime
     @ '',"requests_total":'' @ show_nat (unat (st_requests_total st))
     @ '',"active_connections":'' @ show_int (st_active st)
     @ '',"retries_total":'' @ show_nat (unat (st_retries st))
     @ '',"rate_limit_allows":'' @ show_nat (unat allows)
     @ '',"rate_limit_rejects":'' @ show_nat (unat rejects)
     @ '',"by_status":'' @ map_to_json_obj (order_status ord) (st_by_status st)
     @ '',"by_method":'' @ map_to_json_obj (order_method ord) (st_by_method st)
     @ '',"upstreams":['' @ comma_separated (map (\<lambda>(a, s). snap_json a s) (iter_map (order_upstreams ord) (st_upstreams st)))
     @ '']}''\<close>

section \<open>JSON strings\<close>

lemma replace_char_Nil [simp]: "replace_char c r [] = []"
  by (simp add: replace_char_def)

lemma replace_char_Cons [simp]:
  "replace_char c r (x # s) = (if x = c then r else [x]) @ replace_char c r s"
  by (simp add: replace_char_def)

definition escaped :: "string \<Rightarrow> string" where
  "escaped s = replace_char (CHR 0x22) [CHR 0x5C, CHR 0x22] (replace_char (CHR 0x5C) [CHR 0x5C, CHR 0x5C] s)"

lemma escaped_simps [simp]:
  "escaped [] = []"
  "escaped (c # s) = (if c = CHR 0x5C then [CHR 0x5C, CHR 0x5C] else if c = CHR 0x22 then [CHR 0x5C, CHR 0x22] else [c]) @ escaped s"
  by (simp_all add: escaped_def)

definition printable :: "string \<Rightarrow> bool" where
  "printable = list_all (\<lambda>c. 32 \<le> (of_char c :: nat))"

lemma printable_simps [simp]:
  "printable []" "printable (c # s) \<longleftrightarrow> 32 \<le> (of_char c :: nat) \<and> printable s"
  by (simp_all add: printable_def)

lemma read_chars_escaped:
  "read_chars (escaped s @ CHR 0x22 # rest) = (if printable s then Some (s, rest) else None)"
  by (induction s) auto

lemma read_string_json_str:
  "read_string (json_str s @ rest) = (if printable s then Some (s, rest) else None)"
  by (simp add: json_str_def escaped_def [symmetric] read_chars_escaped)

lemma reads_json_str: "printable s \<Longrightarrow> reads_string s (json_str s)"
  by (simp add: reads_string_def read_string_json_str)

section \<open>Numbers in the text\<close>

lemma digit_range: "is_digit c \<Longrightarrow> 48 \<le> (of_char c :: nat) \<and> (of_char c :: nat) \<le> 57"
  by (auto simp: is_digit_def to_digit_def Let_def split: if_splits)

lemma not_digit: "\<not> is_digit c" if "(of_char c :: nat) < 48 \<or> 57 < (of_char c :: nat)"
  using that digit_range [of c] by auto

lemma lowercase_show_nat: "to_ascii_lowercase (show_nat n) = show_nat n"
proof -
  have le: "(of_char c :: nat) \<le> 57" if "c \<in> set (show_nat n)" for c
    using that is_digit_show_nat digit_range by blast
  show ?thesis
    unfolding to_ascii_lowercase_def by (rule map_idI) (use le in fastforce)
qed

lemma show_nat_Cons: "show_nat n = c # s \<Longrightarrow> is_digit c"
  using is_digit_show_nat [of c n] by simp

lemma show_nat_word: "\<not> is_digit c \<Longrightarrow> show_nat n \<noteq> c # s"
  using show_nat_Cons by blast

lemma split_sign_show_nat: "split_sign (show_nat n) = (False, show_nat n)"
  using show_nat_Cons [of n] not_digit [of "CHR ''-''"] not_digit [of "CHR ''+''"] by (cases "show_nat n") auto

lemma parse_number_show_nat: "n < 2 ^ 53 \<Longrightarrow> parse_number (show_nat n) = Some (Fin (of_nat n))"
proof -
  have "takeWhile is_digit (show_nat n) = show_nat n" "dropWhile is_digit (show_nat n) = []"
    using is_digit_show_nat by simp_all
  moreover assume "n < 2 ^ 53"
  ultimately show ?thesis
    unfolding parse_number_def Let_def by (simp only:) (simp add: pow10_def round64_small_nat)
qed

lemma parse_f64_show_nat:
  assumes "n < 2 ^ 53"
  shows "parse_f64 (show_nat n) = Some (Fin (of_nat n))"
  using assms show_nat_word [of "CHR ''i''"] show_nat_word [of "CHR ''n''"]
  by (simp add: parse_f64_def split_sign_show_nat lowercase_show_nat parse_number_show_nat not_digit)

lemma parse_f64_show_int:
  assumes "\<bar>z\<bar> < 2 ^ 53"
  shows "parse_f64 (show_int z) = Some (Fin (of_int z))"
proof (cases "z < 0")
  case True
  then have "nat (- z) < 2 ^ 53" "of_nat (nat (- z)) = (of_int (- z) :: rat)"
    using assms by (simp_all add: nat_less_iff)
  with True show ?thesis
    using show_nat_word [of "CHR ''i''"] show_nat_word [of "CHR ''n''"]
    by (simp add: show_int_def parse_f64_def lowercase_show_nat parse_number_show_nat not_digit)
next
  case False
  with assms show ?thesis
    by (simp add: show_int_def parse_f64_show_nat nat_less_iff)
qed

lemma as_u64_nat: "n < 2 ^ 53 \<Longrightarrow> as_u64 (Fin (of_nat n)) = of_nat n"
proof -
  assume "n < 2 ^ 53"
  then have "(of_nat n :: rat) < of_nat (2 ^ 53)" by (simp only: of_nat_less_iff)
  then show ?thesis by simp
qed

lemma as_i64_int: "\<bar>z\<bar> < 2 ^ 53 \<Longrightarrow> as_i64 (Fin (of_int z)) = z"
  by (auto simp: max_def min_def abs_if split: if_splits)

section \<open>Labels\<close>

text \<open>What follows the first occurrence of a needle.\<close>

definition find_after :: "string \<Rightarrow> string \<Rightarrow> string option" where
  "find_after n s = map_option (\<lambda>i. drop (i + length n) s) (find_sub n s)"

lemma find_after_Cons:
  "find_after n (c # s) = (if starts_with (c # s) n then Some (drop (length n) (c # s)) else find_after n s)"
  by (simp add: find_after_def option.map_comp comp_def)

lemma find_sub_char: "map_option (\<lambda>i. take i s) (find_sub [c] s) = map_option fst (split_once c s)"
proof (induction s)
  case (Cons x s)
  then show ?case
    by (cases "find_sub [c] s"; cases "split_once c s") (auto simp: starts_with_def)
qed simp

lemma label_alt:
  "label nl k = Option.bind (find_after (k @ [CHR ''='', CHR 0x22]) nl) (\<lambda>r. map_option fst (split_once (CHR 0x22) r))"
  by (auto simp: label_def find_after_def Let_def find_sub_char split: option.splits)

lemma no_straddle:
  assumes "CHR ''='' \<notin> set x" "CHR 0x22 \<notin> set k"
  shows "\<not> starts_with (x @ CHR 0x22 # r) (k @ [CHR ''='', CHR 0x22])"
  using assms by (auto simp: starts_with_iff append_eq_append_conv2 append_eq_Cons_conv Cons_eq_append_conv)

text \<open>No label is found in the value of another one, if that has no equals sign.\<close>

lemma find_after_value:
  assumes "CHR ''='' \<notin> set x" "CHR 0x22 \<notin> set k"
  shows "find_after (k @ [CHR ''='', CHR 0x22]) (x @ CHR 0x22 # r) = find_after (k @ [CHR ''='', CHR 0x22]) r"
  using assms
proof (induction x)
  case Nil
  then show ?case using no_straddle [of "[]" k r] by (simp add: find_after_Cons)
next
  case (Cons c x)
  then show ?case using no_straddle [of "c # x" k r] by (simp add: find_after_Cons)
qed

lemmas find_value =
  find_after_value [of _ "''status''", simplified] find_after_value [of _ "''method''", simplified]
  find_after_value [of _ "''upstream''", simplified]

section \<open>The text format\<close>

text \<open>
  The lines of the exposition format for the collectors of \<open>Metrics\<close>: comments (\<open>HELP\<close> and \<open>TYPE\<close>),
  the samples with the values they hold, and lines of the other families. The encoder prints labels sorted
  by name and a value as a decimal number.
\<close>

datatype exp_line =
    Comment string
  | Requests string string string nat
  | UpstreamHealth string int
  | UpstreamConnections string int
  | ActiveConnections int
  | RetriesTotal nat
  | Other string string

fun line_text :: "exp_line \<Rightarrow> string" where
  \<open>line_text (Comment c) = ''# '' @ c\<close>
| \<open>line_text (Requests m s u n) =
     ''oxigate_requests_total{method="'' @ m @ ''",status="'' @ s @ ''",upstream="'' @ u @ ''"} '' @ show_nat n\<close>
| \<open>line_text (UpstreamHealth u z) = ''oxigate_upstream_health{upstream="'' @ u @ ''"} '' @ show_int z\<close>
| \<open>line_text (UpstreamConnections u z) = ''oxigate_upstream_connections{upstream="'' @ u @ ''"} '' @ show_int z\<close>
| \<open>line_text (ActiveConnections z) = ''oxigate_active_connections '' @ show_int z\<close>
| \<open>line_text (RetriesTotal n) = ''oxigate_retries_total '' @ show_nat n\<close>
| \<open>line_text (Other nl v) = nl @ '' '' @ v\<close>

definition exposition :: "exp_line list \<Rightarrow> string" where
  "exposition ls = concat (map (\<lambda>l. line_text l @ [newline]) ls)"

text \<open>
  Label values that the encoder prints as they are; methods and statuses have no equals sign, and a value
  is exact as an \<open>f64\<close>.
\<close>

definition label_ok :: "string \<Rightarrow> bool" where
  "label_ok v = (CHR 0x22 \<notin> set v \<and> CHR 0x5C \<notin> set v \<and> newline \<notin> set v)"

fun line_ok :: "exp_line \<Rightarrow> bool" where
  "line_ok (Comment c) = (newline \<notin> set c)"
| "line_ok (Requests m s u n) =
     (label_ok m \<and> label_ok s \<and> label_ok u \<and> CHR ''='' \<notin> set m \<and> CHR ''='' \<notin> set s \<and> n < 2 ^ 53)"
| "line_ok (UpstreamHealth u z) = (label_ok u \<and> \<bar>z\<bar> < 2 ^ 53)"
| "line_ok (UpstreamConnections u z) = (label_ok u \<and> \<bar>z\<bar> < 2 ^ 53)"
| "line_ok (ActiveConnections z) = (\<bar>z\<bar> < 2 ^ 53)"
| "line_ok (RetriesTotal n) = (n < 2 ^ 53)"
| "line_ok (Other nl v) =
     (newline \<notin> set nl \<and> newline \<notin> set v \<and> CHR '' '' \<notin> set v \<and> v \<noteq> [] \<and> last v \<noteq> CHR 0x0D
      \<and> \<not> starts_with nl ''oxigate_requests_total{'' \<and> \<not> starts_with nl ''oxigate_upstream_health{''
      \<and> \<not> starts_with nl ''oxigate_upstream_connections{'' \<and> nl \<noteq> ''oxigate_active_connections''
      \<and> nl \<noteq> ''oxigate_retries_total'')"

text \<open>The effect of a sample, without the text.\<close>

fun apply_line :: "exp_line \<Rightarrow> stats \<Rightarrow> stats" where
  "apply_line (Requests m s u n) st =
     (let st = st\<lparr>st_requests_total := st_requests_total st + of_nat n,
                  st_by_status := entry 0 (\<lambda>k. k + of_nat n) s (st_by_status st),
                  st_by_method := entry 0 (\<lambda>k. k + of_nat n) m (st_by_method st)\<rparr>
      in if u = ''none'' then st else upd_snap (\<lambda>x. x\<lparr>snap_requests := snap_requests x + of_nat n\<rparr>) u st)"
| "apply_line (UpstreamHealth u z) st = upd_snap (\<lambda>x. x\<lparr>snap_healthy := 1 \<le> z\<rparr>) u st"
| "apply_line (UpstreamConnections u z) st = upd_snap (\<lambda>x. x\<lparr>snap_connections := z\<rparr>) u st"
| "apply_line (ActiveConnections z) st = st\<lparr>st_active := z\<rparr>"
| "apply_line (RetriesTotal n) st = st\<lparr>st_retries := of_nat n\<rparr>"
| "apply_line _ st = st"

subsection \<open>Lines\<close>

lemma rsplit_once_append: "c \<notin> set b \<Longrightarrow> rsplit_once c (a @ c # b) = Some (a, b)"
  by (simp add: rsplit_once_def split_once_append)

lemma no_char_show_nat: "\<not> is_digit c \<Longrightarrow> c \<notin> set (show_nat n)"
  using is_digit_show_nat by blast

lemma no_char_show_int: "\<not> is_digit c \<Longrightarrow> c \<noteq> CHR ''-'' \<Longrightarrow> c \<notin> set (show_int z)"
  using is_digit_show_nat by (auto simp: show_int_def)

lemma show_int_nonempty [simp]: "show_int z \<noteq> []"
  by (simp add: show_int_def)

lemma stats_line_sample:
  assumes "\<not> starts_with (nl @ '' '' @ v) ''#''" "CHR '' '' \<notin> set v" "v \<noteq> []" "last v \<noteq> CHR 0x0D"
  shows "stats_line (strip_cr (nl @ '' '' @ v)) st
      = stats_sample nl (case parse_f64 v of Some x \<Rightarrow> x | None \<Rightarrow> Fin 0) st"
  using assms by (simp add: strip_cr_def stats_line_def rsplit_once_append)

lemma stats_line_nat:
  assumes "\<not> starts_with (nl @ '' '') ''#''" "n < 2 ^ 53"
  shows "stats_line (strip_cr (nl @ '' '' @ show_nat n)) st = stats_sample nl (Fin (of_nat n)) st"
proof -
  have "\<not> starts_with (nl @ '' '' @ show_nat n) ''#''"
    using assms by (cases nl) (auto simp: starts_with_def)
  moreover have "last (show_nat n) \<noteq> CHR 0x0D"
    using is_digit_show_nat [of "last (show_nat n)" n] not_digit [of "CHR 0x0D"] by auto
  ultimately show ?thesis
    using assms by (subst stats_line_sample) (simp_all add: parse_f64_show_nat no_char_show_nat not_digit)
qed

lemma stats_line_int:
  assumes "\<not> starts_with (nl @ '' '') ''#''" "\<bar>z\<bar> < 2 ^ 53"
  shows "stats_line (strip_cr (nl @ '' '' @ show_int z)) st = stats_sample nl (Fin (of_int z)) st"
proof -
  have "\<not> starts_with (nl @ '' '' @ show_int z) ''#''"
    using assms by (cases nl) (auto simp: starts_with_def)
  moreover have "last (show_int z) \<noteq> CHR 0x0D"
  proof -
    have "CHR 0x0D \<notin> set (show_int z)" by (simp add: no_char_show_int not_digit)
    then show ?thesis by (metis last_in_set show_int_nonempty)
  qed
  ultimately show ?thesis
    using assms by (subst stats_line_sample) (simp_all add: parse_f64_show_int no_char_show_int not_digit)
qed

lemmas label_eval = label_alt find_after_Cons starts_with_def find_value split_once_append

lemma requests_labels:
  assumes "CHR ''='' \<notin> set m" "CHR ''='' \<notin> set s" "label_ok m" "label_ok s" "label_ok u"
    and nl: \<open>nl = ''oxigate_requests_total{method="'' @ m @ ''",status="'' @ s @ ''",upstream="'' @ u @ ''"}''\<close>
  shows "label nl ''method'' = Some m" "label nl ''status'' = Some s" "label nl ''upstream'' = Some u"
  using assms(1-5) unfolding nl by (simp_all add: label_eval label_ok_def)

lemma upstream_label:
  assumes "label_ok u"
  shows \<open>label (''oxigate_upstream_health{upstream="'' @ u @ ''"}'') ''upstream'' = Some u\<close>
    and \<open>label (''oxigate_upstream_connections{upstream="'' @ u @ ''"}'') ''upstream'' = Some u\<close>
  using assms by (simp_all add: label_eval label_ok_def)

lemma stats_line_apply:
  assumes "line_ok l"
  shows "stats_line (strip_cr (line_text l)) st = apply_line l st"
proof (cases l)
  case (Comment c)
  then show ?thesis by (simp add: stats_line_def strip_cr_def starts_with_def)
next
  case (Requests m s u n)
  define nl where nl: \<open>nl = ''oxigate_requests_total{method="'' @ m @ ''",status="'' @ s @ ''",upstream="'' @ u @ ''"}''\<close>
  have "stats_line (strip_cr (nl @ '' '' @ show_nat n)) st = stats_sample nl (Fin (of_nat n)) st"
    using assms Requests by (intro stats_line_nat) (simp_all add: nl starts_with_def)
  moreover have "starts_with nl ''oxigate_requests_total{''"
    by (simp add: nl starts_with_def)
  moreover note requests_labels [of m s u, OF _ _ _ _ _ nl]
  ultimately show ?thesis
    using assms Requests as_u64_nat [of n]
    by (simp add: stats_sample_def requests_sample_def Let_def nl del: as_u64.simps)
next
  case (UpstreamHealth u z)
  with assms stats_line_int [of \<open>''oxigate_upstream_health{upstream="'' @ u @ ''"}''\<close> z]
  show ?thesis by (simp add: stats_sample_def upstream_label [simplified] starts_with_def)
next
  case (UpstreamConnections u z)
  with assms stats_line_int [of \<open>''oxigate_upstream_connections{upstream="'' @ u @ ''"}''\<close> z]
  show ?thesis
    by (simp add: stats_sample_def upstream_label [simplified] starts_with_def as_i64_int del: as_i64.simps)
next
  case (ActiveConnections z)
  with assms stats_line_int [of "''oxigate_active_connections''" z]
  show ?thesis by (simp add: stats_sample_def starts_with_def as_i64_int del: as_i64.simps)
next
  case (RetriesTotal n)
  with assms stats_line_nat [of "''oxigate_retries_total''" n]
  show ?thesis by (simp add: stats_sample_def starts_with_def as_u64_nat del: as_u64.simps)
next
  case (Other nl v)
  then show ?thesis
    using assms stats_line_sample [of nl v st]
    by (cases "starts_with (nl @ '' '' @ v) ''#''")
      (auto simp: stats_sample_def stats_line_def strip_cr_def)
qed

lemma line_no_newline: "line_ok l \<Longrightarrow> newline \<notin> set (line_text l)"
  by (cases l) (auto simp: label_ok_def newline_def no_char_show_nat no_char_show_int not_digit)

lemma str_lines_exposition:
  assumes "list_all line_ok ls"
  shows "str_lines (exposition ls) = map (\<lambda>l. strip_cr (line_text l)) ls"
  using assms
proof (induction ls)
  case Nil
  then show ?case by (simp add: exposition_def str_lines_def)
next
  case (Cons l ls)
  then have "split newline (exposition (l # ls)) = line_text l # split newline (exposition ls)"
    by (simp add: exposition_def split_append line_no_newline)
  with Cons show ?case by (auto simp: str_lines_def Let_def split: if_splits)
qed

lemma stats_of_exposition:
  assumes "list_all line_ok ls"
  shows "stats_of_text (exposition ls) = fold apply_line ls stats_empty"
proof -
  have "fold stats_line (map (\<lambda>l. strip_cr (line_text l)) ls) st = fold apply_line ls st" for st
    using assms by (induction ls arbitrary: st) (simp_all add: stats_line_apply)
  with assms show ?thesis by (simp add: stats_of_text_def str_lines_exposition)
qed

section \<open>Sums\<close>

text \<open>How many requests the samples count, of those whose method, status and upstream satisfy a test.\<close>

fun requests_of :: "(string \<Rightarrow> string \<Rightarrow> string \<Rightarrow> bool) \<Rightarrow> exp_line \<Rightarrow> nat" where
  "requests_of P (Requests m s u n) = (if P m s u then n else 0)"
| "requests_of P _ = 0"

definition requests_in :: "(string \<Rightarrow> string \<Rightarrow> string \<Rightarrow> bool) \<Rightarrow> exp_line list \<Rightarrow> nat" where
  "requests_in P ls = sum_list (map (requests_of P) ls)"

text \<open>The latest value that a selector finds in the samples.\<close>

definition latest :: "(exp_line \<Rightarrow> 'a option) \<Rightarrow> 'a \<Rightarrow> exp_line list \<Rightarrow> 'a" where
  "latest f d ls = fold (\<lambda>l a. case f l of Some x \<Rightarrow> x | None \<Rightarrow> a) ls d"

fun health_sample :: "string \<Rightarrow> exp_line \<Rightarrow> bool option" where
  "health_sample u (UpstreamHealth v z) = (if u = v then Some (1 \<le> z) else None)"
| "health_sample u _ = None"

fun connections_sample :: "string \<Rightarrow> exp_line \<Rightarrow> int option" where
  "connections_sample u (UpstreamConnections v z) = (if u = v then Some z else None)"
| "connections_sample u _ = None"

fun active_sample :: "exp_line \<Rightarrow> int option" where
  "active_sample (ActiveConnections z) = Some z"
| "active_sample _ = None"

fun retries_sample :: "exp_line \<Rightarrow> u64 option" where
  "retries_sample (RetriesTotal n) = Some (of_nat n)"
| "retries_sample _ = None"

definition count_at :: "(string \<times> u64) list \<Rightarrow> string \<Rightarrow> u64" where
  "count_at m k = (case map_of m k of None \<Rightarrow> 0 | Some v \<Rightarrow> v)"

definition snap_at :: "(string \<times> upstream_snap) list \<Rightarrow> string \<Rightarrow> upstream_snap" where
  "snap_at m k = (case map_of m k of None \<Rightarrow> default_snap | Some v \<Rightarrow> v)"

lemma count_at_entry: "count_at (entry 0 f k m) x = (if x = k then f (count_at m k) else count_at m x)"
  by (auto simp: count_at_def entry_def update_conv')

lemma snap_at_entry: "snap_at (entry default_snap f k m) x = (if x = k then f (snap_at m k) else snap_at m x)"
  by (auto simp: snap_at_def entry_def update_conv')

lemma keys_entry: "fst ` set (entry d f k m) = insert k (fst ` set m)"
  using dom_update [of k _ m] by (simp add: entry_def dom_map_of_conv_image_fst)

lemma latest_Cons [simp]:
  "latest f d (l # ls) = latest f (case f l of Some x \<Rightarrow> x | None \<Rightarrow> d) ls"
  by (simp add: latest_def)

lemma latest_Nil [simp]: "latest f d [] = d"
  by (simp add: latest_def)

lemma requests_in_simps [simp]:
  "requests_in P [] = 0" "requests_in P (l # ls) = requests_of P l + requests_in P ls"
  by (simp_all add: requests_in_def)

text \<open>Each field of the result depends on the initial one and on the samples.\<close>

lemma fold_totals:
  "st_requests_total (fold apply_line ls st) = st_requests_total st + of_nat (requests_in (\<lambda>m s u. True) ls)"
  "count_at (st_by_status (fold apply_line ls st)) x
     = count_at (st_by_status st) x + of_nat (requests_in (\<lambda>m s u. s = x) ls)"
  "count_at (st_by_method (fold apply_line ls st)) x
     = count_at (st_by_method st) x + of_nat (requests_in (\<lambda>m s u. m = x) ls)"
proof (induction ls arbitrary: st)
  case (Cons l ls)
  { case 1 show ?case using Cons(1) by (cases l) (simp_all add: Let_def upd_snap_def) }
  { case 2 show ?case using Cons(2) by (cases l) (auto simp: Let_def upd_snap_def count_at_entry) }
  { case 3 show ?case using Cons(3) by (cases l) (auto simp: Let_def upd_snap_def count_at_entry) }
qed simp_all

lemma fold_gauges:
  "st_active (fold apply_line ls st) = latest active_sample (st_active st) ls"
  "st_retries (fold apply_line ls st) = latest retries_sample (st_retries st) ls"
proof (induction ls arbitrary: st)
  case (Cons l ls)
  { case 1 show ?case using Cons(1) by (cases l) (simp_all add: Let_def upd_snap_def) }
  { case 2 show ?case using Cons(2) by (cases l) (simp_all add: Let_def upd_snap_def) }
qed simp_all

lemma fold_snaps:
  "snap_requests (snap_at (st_upstreams (fold apply_line ls st)) x)
     = snap_requests (snap_at (st_upstreams st) x) + of_nat (requests_in (\<lambda>m s u. u = x \<and> u \<noteq> ''none'') ls)"
  "snap_healthy (snap_at (st_upstreams (fold apply_line ls st)) x)
     = latest (health_sample x) (snap_healthy (snap_at (st_upstreams st) x)) ls"
  "snap_connections (snap_at (st_upstreams (fold apply_line ls st)) x)
     = latest (connections_sample x) (snap_connections (snap_at (st_upstreams st) x)) ls"
proof (induction ls arbitrary: st)
  case (Cons l ls)
  { case 1 show ?case using Cons(1) by (cases l) (auto simp: Let_def upd_snap_def snap_at_entry) }
  { case 2 show ?case using Cons(2) by (cases l) (auto simp: Let_def upd_snap_def snap_at_entry) }
  { case 3 show ?case using Cons(3) by (cases l) (auto simp: Let_def upd_snap_def snap_at_entry) }
qed simp_all

section \<open>Keys\<close>

text \<open>The maps have distinct keys, which are pieces of the text.\<close>

definition keys_inv :: "(char \<Rightarrow> bool) \<Rightarrow> stats \<Rightarrow> bool" where
  "keys_inv P st \<longleftrightarrow>
     distinct (map fst (st_by_status st)) \<and> distinct (map fst (st_by_method st)) \<and> distinct (map fst (st_upstreams st))
     \<and> (\<forall>k \<in> fst ` set (st_by_status st) \<union> fst ` set (st_by_method st) \<union> fst ` set (st_upstreams st). list_all P k)"

lemma label_chars: "label nl k = Some v \<Longrightarrow> list_all P nl \<Longrightarrow> list_all P v"
  by (auto simp: label_def Let_def list_all_iff split: option.splits dest!: in_set_takeD in_set_dropD)

lemma distinct_entry: "distinct (map fst m) \<Longrightarrow> distinct (map fst (entry d f k m))"
  by (simp add: entry_def distinct_update)

lemma upd_snap_keys: "keys_inv P st \<Longrightarrow> list_all P k \<Longrightarrow> keys_inv P (upd_snap f k st)"
  by (auto simp: keys_inv_def upd_snap_def distinct_entry keys_entry)

lemma by_status_keys:
  "keys_inv P st \<Longrightarrow> list_all P k \<Longrightarrow> m = st_by_status st \<Longrightarrow> keys_inv P (st\<lparr>st_by_status := entry 0 f k m\<rparr>)"
  by (auto simp: keys_inv_def distinct_entry keys_entry)

lemma by_method_keys:
  "keys_inv P st \<Longrightarrow> list_all P k \<Longrightarrow> m = st_by_method st \<Longrightarrow> keys_inv P (st\<lparr>st_by_method := entry 0 f k m\<rparr>)"
  by (auto simp: keys_inv_def distinct_entry keys_entry)

lemma plain_keys:
  "keys_inv P st \<Longrightarrow> keys_inv P (st\<lparr>st_requests_total := a\<rparr>)"
  "keys_inv P st \<Longrightarrow> keys_inv P (st\<lparr>st_active := b\<rparr>)"
  "keys_inv P st \<Longrightarrow> keys_inv P (st\<lparr>st_retries := a\<rparr>)"
  by (simp_all add: keys_inv_def)

lemma keys_label:
  "list_all P nl \<Longrightarrow> keys_inv P st \<Longrightarrow> (\<And>k. list_all P k \<Longrightarrow> keys_inv P (f k))
     \<Longrightarrow> keys_inv P (case label nl x of None \<Rightarrow> st | Some k \<Rightarrow> f k)"
  by (auto split: option.split dest: label_chars)

lemma keys_if: "keys_inv P a \<Longrightarrow> keys_inv P b \<Longrightarrow> keys_inv P (if c then a else b)"
  by simp

lemmas keys_intros = upd_snap_keys by_status_keys by_method_keys plain_keys

lemma stats_sample_keys:
  assumes "keys_inv P st" "list_all P nl"
  shows "keys_inv P (stats_sample nl v st)"
  unfolding stats_sample_def requests_sample_def Let_def
  by (intro keys_label [OF assms(2)] keys_if keys_intros refl assms(1))

lemma stats_line_keys: "keys_inv P st \<Longrightarrow> list_all P line \<Longrightarrow> keys_inv P (stats_line line st)"
proof -
  have "list_all P a" if "rsplit_once (CHR '' '') line = Some (a, b)" "list_all P line" for a b
  proof -
    from that(1) obtain a' b' where "split_once (CHR '' '') (rev line) = Some (a', b')" "a = rev b'"
      by (auto simp: rsplit_once_def)
    then have "set a \<subseteq> set (rev line)" by (auto simp: split_once_Some)
    with that(2) show ?thesis by (auto simp: list_all_iff)
  qed
  moreover assume "keys_inv P st" "list_all P line"
  ultimately show ?thesis
    by (auto simp: stats_line_def split: option.split intro!: stats_sample_keys)
qed

lemma split_chars: "p \<in> set (split c s) \<Longrightarrow> set p \<subseteq> set s - {c}"
proof (induction s arbitrary: p)
  case (Cons x s)
  then show ?case by (fastforce split: if_splits list.splits)
qed simp

lemma str_lines_chars:
  assumes "line \<in> set (str_lines s)"
  shows "set line \<subseteq> set s - {newline}"
proof -
  from assms consider p where "p \<in> set (butlast (split newline s))" "line = strip_cr p"
    | "line = last (split newline s)"
    by (auto simp: str_lines_def Let_def split: if_splits)
  then have "\<exists>p \<in> set (split newline s). set line \<subseteq> set p"
  proof cases
    case 1
    then show ?thesis
      by (intro bexI [of _ p]) (auto simp: strip_cr_def split: if_splits dest: in_set_butlastD)
  next
    case 2
    then show ?thesis by (intro bexI [of _ line]) simp_all
  qed
  with split_chars show ?thesis by blast
qed

lemma stats_of_text_keys:
  assumes "list_all (\<lambda>c. P c \<or> c = newline) text"
  shows "keys_inv P (stats_of_text text)"
proof -
  have "keys_inv P (fold stats_line ls st)" if "keys_inv P st" "\<forall>l \<in> set ls. list_all P l" for ls st
    using that by (induction ls arbitrary: st) (simp_all add: stats_line_keys)
  moreover have "list_all P l" if "l \<in> set (str_lines text)" for l
    using str_lines_chars [OF that] assms by (auto simp: list_all_iff)
  moreover have "keys_inv P stats_empty"
    by (simp add: keys_inv_def stats_empty_def)
  ultimately show ?thesis by (simp add: stats_of_text_def)
qed

section \<open>The printed statistics\<close>

text \<open>The orders of iteration are rearrangements of the keys.\<close>

definition hash_ok :: "hash_orders \<Rightarrow> bool" where
  "hash_ok ord \<longleftrightarrow>
     (\<forall>ks. mset (order_status ord ks) = mset ks \<and> mset (order_method ord ks) = mset ks
           \<and> mset (order_upstreams ord ks) = mset ks)"

lemma iter_map_mset:
  assumes "distinct (map fst m)" "mset (order (map fst m)) = mset (map fst m)"
  shows "mset (iter_map order m) = mset m"
proof -
  have "mset (iter_map order m) = image_mset (\<lambda>k. (k, the (map_of m k))) (mset (map fst m))"
    by (simp only: iter_map_def mset_map assms(2))
  also have "\<dots> = mset (map (\<lambda>e. (fst e, the (map_of m (fst e)))) m)"
    by (simp add: image_mset.compositionality comp_def)
  also have "map (\<lambda>e. (fst e, the (map_of m (fst e)))) m = m"
    using assms(1) by (intro map_idI) auto
  finally show ?thesis .
qed

definition counts_tree :: "(string \<times> u64) list \<Rightarrow> json" where
  "counts_tree m = JObj (map (\<lambda>(k, v). (k, JInt (uint v))) m)"

definition snap_tree :: "string \<times> upstream_snap \<Rightarrow> json" where
  "snap_tree e =
     JObj [(''address'', JStr (fst e)), (''healthy'', JBool (snap_healthy (snd e))),
           (''connections'', JInt (snap_connections (snd e))), (''requests'', JInt (uint (snap_requests (snd e))))]"

definition stats_tree ::
  "string \<Rightarrow> nat \<Rightarrow> u64 \<Rightarrow> u64 \<Rightarrow> stats \<Rightarrow> (string \<times> u64) list \<Rightarrow> (string \<times> u64) list
     \<Rightarrow> (string \<times> upstream_snap) list \<Rightarrow> json" where
  "stats_tree version uptime allows rejects st by_status by_method ups =
     JObj [(''version'', JStr version), (''uptime_secs'', JInt (int uptime)),
           (''requests_total'', JInt (uint (st_requests_total st))), (''active_connections'', JInt (st_active st)),
           (''retries_total'', JInt (uint (st_retries st))), (''rate_limit_allows'', JInt (uint allows)),
           (''rate_limit_rejects'', JInt (uint rejects)), (''by_status'', counts_tree by_status),
           (''by_method'', counts_tree by_method), (''upstreams'', JArr (map snap_tree ups))]"

lemma reads_key:
  assumes "printable k" "reads v t"
  shows "reads_member (k, v) (json_str k @ CHR '':'' # t)"
  using reads_memberI [OF reads_json_str [OF assms(1)] assms(2)] by simp

lemma reads_word: "reads (JInt (uint w)) (show_nat (unat w))"
  using reads_nat [of "unat w"] by simp

lemma reads_counts:
  assumes "\<forall>k \<in> set (order (map fst m)). printable k"
  shows "reads (counts_tree (iter_map order m)) (map_to_json_obj order m)"
  unfolding counts_tree_def map_to_json_obj_def
  by (rule reads_obj)
    (use assms in \<open>auto simp: list_all2_conv_all_nth iter_map_def intro!: reads_key reads_word\<close>)

lemma reads_snap:
  assumes "printable addr"
  shows "reads (snap_tree (addr, s)) (snap_json addr s)"
proof -
  have "snap_json addr s =
      ''{'' @ comma_separated [json_str ''address'' @ '':'' @ json_str addr, json_str ''healthy'' @ '':'' @ show_bool (snap_healthy s),
        json_str ''connections'' @ '':'' @ show_int (snap_connections s),
        json_str ''requests'' @ '':'' @ show_nat (unat (snap_requests s))] @ ''}''"
    by (simp add: snap_json_def json_str_def replace_char_def)
  moreover have "reads (snap_tree (addr, s)) \<dots>"
    unfolding snap_tree_def
    by (rule reads_obj)
      (use assms in \<open>auto intro!: reads_key reads_rules reads_word reads_json_str\<close>)
  ultimately show ?thesis by simp
qed

lemma stats_print_parses:
  assumes "printable version"
    and "\<forall>k \<in> set (order_status ord (map fst (st_by_status st))). printable k"
    and "\<forall>k \<in> set (order_method ord (map fst (st_by_method st))). printable k"
    and "\<forall>k \<in> set (order_upstreams ord (map fst (st_upstreams st))). printable k"
  shows "parse_json (stats_print ord version uptime allows rejects st)
       = Some (stats_tree version uptime allows rejects st (iter_map (order_status ord) (st_by_status st))
                 (iter_map (order_method ord) (st_by_method st)) (iter_map (order_upstreams ord) (st_upstreams st)))"
proof -
  let ?ups = "iter_map (order_upstreams ord) (st_upstreams st)"
  let ?members = "[json_str ''version'' @ '':'' @ json_str version, json_str ''uptime_secs'' @ '':'' @ show_nat uptime,
    json_str ''requests_total'' @ '':'' @ show_nat (unat (st_requests_total st)),
    json_str ''active_connections'' @ '':'' @ show_int (st_active st),
    json_str ''retries_total'' @ '':'' @ show_nat (unat (st_retries st)),
    json_str ''rate_limit_allows'' @ '':'' @ show_nat (unat allows),
    json_str ''rate_limit_rejects'' @ '':'' @ show_nat (unat rejects),
    json_str ''by_status'' @ '':'' @ map_to_json_obj (order_status ord) (st_by_status st),
    json_str ''by_method'' @ '':'' @ map_to_json_obj (order_method ord) (st_by_method st),
    json_str ''upstreams'' @ '':'' @ ''['' @ comma_separated (map (\<lambda>(a, s). snap_json a s) ?ups) @ '']'']"
  have "stats_print ord version uptime allows rejects st = ''{'' @ comma_separated ?members @ ''}''"
    by (simp add: stats_print_def json_str_def replace_char_def)
  moreover have "reads (JArr (map snap_tree ?ups)) (''['' @ comma_separated (map (\<lambda>(a, s). snap_json a s) ?ups) @ '']'')"
    by (rule reads_arr)
      (use assms(4) in \<open>auto simp: list_all2_conv_all_nth iter_map_def intro!: reads_snap\<close>)
  then have "reads (stats_tree version uptime allows rejects st (iter_map (order_status ord) (st_by_status st))
                 (iter_map (order_method ord) (st_by_method st)) ?ups)
      (''{'' @ comma_separated ?members @ ''}'')"
    unfolding stats_tree_def
    by (intro reads_obj list_all2_Cons [THEN iffD2] conjI reads_key)
      (use assms in \<open>auto intro!: reads_key reads_int reads_nat reads_word reads_str reads_json_str reads_counts\<close>)
  ultimately show ?thesis using reads_parse by simp
qed

section \<open>Properties\<close>

text \<open>C23. The dashboard reports what the metrics hold: from the text of any samples in the exposition
  format, in any order and mixed with comments and other families, the statistics are the sum of the
  request counters (modulo \<open>2 ^ 64\<close>), the sums for each status, method and upstream, and the latest value
  of each gauge. No label is confused with part of the value of another.\<close>

theorem stats_read_samples:
  assumes "list_all line_ok ls"
  shows "st_requests_total (stats_of_text (exposition ls)) = of_nat (requests_in (\<lambda>m s u. True) ls)
         \<and> (\<forall>x. count_at (st_by_status (stats_of_text (exposition ls))) x = of_nat (requests_in (\<lambda>m s u. s = x) ls)
              \<and> count_at (st_by_method (stats_of_text (exposition ls))) x = of_nat (requests_in (\<lambda>m s u. m = x) ls)
              \<and> snap_at (st_upstreams (stats_of_text (exposition ls))) x =
                  \<lparr>snap_healthy = latest (health_sample x) False ls,
                   snap_connections = latest (connections_sample x) 0 ls,
                   snap_requests = of_nat (requests_in (\<lambda>m s u. u = x \<and> u \<noteq> ''none'') ls)\<rparr>)
         \<and> st_active (stats_of_text (exposition ls)) = latest active_sample 0 ls
         \<and> st_retries (stats_of_text (exposition ls)) = latest retries_sample 0 ls"
proof -
  have snap: "snap_at (st_upstreams (fold apply_line ls stats_empty)) x =
      \<lparr>snap_healthy = latest (health_sample x) False ls,
       snap_connections = latest (connections_sample x) 0 ls,
       snap_requests = of_nat (requests_in (\<lambda>m s u. u = x \<and> u \<noteq> ''none'') ls)\<rparr>" for x
    by (rule upstream_snap.equality)
      (simp_all add: fold_snaps stats_empty_def snap_at_def [of "[]"] default_snap_def)
  show ?thesis
    unfolding stats_of_exposition [OF assms] snap fold_totals fold_gauges
    by (simp add: stats_empty_def count_at_def)
qed

section \<open>Witness\<close>

definition sample_lines :: "exp_line list" where
  "sample_lines =
     [Comment ''TYPE oxigate_requests_total counter'', Requests ''GET'' ''200'' ''http://a:80'' 5,
      Requests ''GET'' ''502'' ''http://a:80'' 2, Requests ''PUT'' ''200'' ''none'' 1,
      UpstreamHealth ''http://a:80'' 1, ActiveConnections 3]"

theorem stats_read_samples_witness:
  "st_requests_total (stats_of_text (exposition sample_lines)) = 8
   \<and> count_at (st_by_status (stats_of_text (exposition sample_lines))) ''200'' = 6
   \<and> snap_at (st_upstreams (stats_of_text (exposition sample_lines))) ''http://a:80''
       = \<lparr>snap_healthy = True, snap_connections = 0, snap_requests = 7\<rparr>
   \<and> st_active (stats_of_text (exposition sample_lines)) = 3"
proof -
  have "list_all line_ok sample_lines"
    by (simp add: sample_lines_def label_ok_def newline_def)
  from stats_read_samples [OF this] show ?thesis
    by (simp add: sample_lines_def)
qed

end
