(* ===== verification/Dashboard.thy ===== *)
theory Dashboard
  imports Stats Server
begin

text \<open>
  The admin endpoint: the handlers of \<open>src/dashboard.rs\<close> and the dispatch of \<open>run_admin_server\<close> in
  \<open>src/main.rs\<close>. The state a handler sees is the shared state at that moment; the bytes of the encoder,
  the page, the clock, the orders of the hash maps and the derivation of the WebSocket key are arguments.
  \<open>None\<close> is a panic of \<open>unwrap\<close> on a response builder.
\<close>

section \<open>Definitions\<close>

record 'm dashboard_state =
  dash_metrics :: 'm
  dash_rate_limiter :: "rate_limiter option"
  dash_started :: instant
  dash_version :: string
  dash_admin_token :: "string option"

text \<open>What the handlers use of other code: the encoder, the page, the hash orders and the key derivation.\<close>

record ('h, 'm) admin_lib =
  ad_http :: "'h http_lib"
  ad_encode :: "'m \<Rightarrow> string"
  ad_html :: string
  ad_orders :: hash_orders
  ad_accept_key :: "string \<Rightarrow> string"

type_synonym 'h admin_response = "('h, string) response"

definition built_response :: "'h http_lib \<Rightarrow> nat \<Rightarrow> (string \<times> string) list \<Rightarrow> string \<Rightarrow> 'h admin_response option" where
  "built_response L status hs body =
     map_option (\<lambda>h. \<lparr>rs_status = status, rs_version = HTTP_11, rs_headers = h, rs_body = body\<rparr>)
       (foldl (builder_header L) (Some (hm_empty L)) hs)"

fun query_token :: "string list \<Rightarrow> string \<Rightarrow> bool" where
  "query_token [] token = False"
| "query_token (part # parts) token =
     (case strip_prefix ''token='' part of Some v \<Rightarrow> v = token | None \<Rightarrow> query_token parts token)"

definition authorized :: "'h http_lib \<Rightarrow> ('h, 'b) request \<Rightarrow> string \<Rightarrow> bool" where
  "authorized L rq token =
     (case Option.bind (Option.bind (hm_get L (rq_headers rq) ''authorization'') (value_to_str L)) (strip_prefix ''Bearer '') of
        Some rest \<Rightarrow> rest = token
      | None \<Rightarrow>
          (case rq_query rq of
             Some q \<Rightarrow> query_token (split (CHR ''&'') q) token
           | None \<Rightarrow> False))"

text \<open>
  \<open>Metrics::gather\<close>: the bytes of the encoder, or nothing if they are not UTF-8. Encoding into memory does
  not fail.
\<close>

definition gather :: "('h, 'm) admin_lib \<Rightarrow> 'm \<Rightarrow> string" where
  "gather D m = (let buffer = ad_encode D m in if utf8_valid buffer then buffer else [])"

text \<open>The guard both handlers start with.\<close>

definition refused :: "'h http_lib \<Rightarrow> 'm dashboard_state \<Rightarrow> ('h, 'b) request \<Rightarrow> bool" where
  "refused L st rq =
     (case dash_admin_token st of Some token \<Rightarrow> token \<noteq> [] \<and> \<not> authorized L rq token | None \<Rightarrow> False)"

definition stats_json :: "('h, 'm) admin_lib \<Rightarrow> instant \<Rightarrow> 'm dashboard_state \<Rightarrow> string" where
  "stats_json D now st =
     (case (case dash_rate_limiter st of Some rl \<Rightarrow> (rl_allows rl, rl_rejects rl) | None \<Rightarrow> (0, 0)) of
        (allows, rejects) \<Rightarrow>
          stats_print (ad_orders D) (dash_version st) (duration_since now (dash_started st) div 10 ^ 9) allows rejects
            (stats_of_text (gather D (dash_metrics st))))"

definition html_response :: "'h http_lib \<Rightarrow> string \<Rightarrow> 'h admin_response option" where
  "html_response L body =
     built_response L 200 [(''Content-Type'', ''text/html; charset=utf-8''), (''Cache-Control'', ''no-cache'')] body"

definition json_response :: "'h http_lib \<Rightarrow> string \<Rightarrow> 'h admin_response option" where
  "json_response L body =
     built_response L 200 [(''Content-Type'', ''application/json; charset=utf-8''), (''Cache-Control'', ''no-cache'')] body"

definition admin_error_response :: "'h http_lib \<Rightarrow> nat \<Rightarrow> string \<Rightarrow> 'h admin_response option" where
  "admin_error_response L status message =
     built_response L status [(''Content-Type'', ''text/plain; charset=utf-8'')] message"

definition unauthorized_body :: string where
  \<open>unauthorized_body = ''{"error":"unauthorized","hint":"Authorization: Bearer <token> or ?token="}''\<close>

definition handle_admin ::
  "('h, 'm) admin_lib \<Rightarrow> instant \<Rightarrow> ('h, 'b) request \<Rightarrow> 'm dashboard_state \<Rightarrow> 'h admin_response option" where
  \<open>handle_admin D now rq st =
     (let L = ad_http D; path = rq_path rq
      in if path = ''/healthz'' then built_response L 200 [(''Content-Type'', ''text/plain'')] ''ok''
         else if refused L st rq
         then built_response L 401 [(''WWW-Authenticate'', ''Bearer''), (''Content-Type'', ''application/json'')] unauthorized_body
         else if path = ''/'' \<or> path = ''/dashboard'' \<or> path = ''/dashboard/'' then html_response L (ad_html D)
         else if path = ''/api/stats'' then json_response L (stats_json D now st)
         else if path = ''/metrics''
         then built_response L 200
                [(''Content-Type'', ''text/plain; version=0.0.4; charset=utf-8''), (''Cache-Control'', ''no-cache'')]
                (gather D (dash_metrics st))
         else built_response L 404 [(''Content-Type'', ''application/json'')] ''{"error":"not_found"}'')\<close>

text \<open>The response to a WebSocket request, and whether the task that feeds the socket was spawned.\<close>

definition handle_dashboard_ws ::
  "('h, 'm) admin_lib \<Rightarrow> ('h, 'b) request \<Rightarrow> 'm dashboard_state \<Rightarrow> ('h admin_response \<times> bool) option" where
  "handle_dashboard_ws D rq st =
     (let L = ad_http D
      in if refused L st rq
         then map_option (\<lambda>r. (r, False)) (built_response L 401 [(''WWW-Authenticate'', ''Bearer'')] ''unauthorized'')
         else (case hm_get L (rq_headers rq) ''sec-websocket-key'' of
                 None \<Rightarrow> map_option (\<lambda>r. (r, False)) (admin_error_response L 400 ''missing websocket key'')
               | Some ws_key \<Rightarrow>
                   map_option (\<lambda>r. (r, True))
                     (built_response L 101
                        [(''connection'', ''Upgrade''), (''upgrade'', ''websocket''),
                         (''sec-websocket-accept'', ad_accept_key D ws_key)] [])))"

text \<open>
  The feeding task: a tick sends the statistics of that moment, a message that is a close, an error or the
  end of the stream ends the task, any other message is ignored. The result is what was sent and whether
  the task ended.
\<close>

datatype ws_message = WsClose | WsData string

datatype 'm feed_event = Tick instant "'m dashboard_state" bool | Received "(unit + ws_message) option"

fun ws_feed :: "('h, 'm) admin_lib \<Rightarrow> 'm feed_event list \<Rightarrow> string list \<times> bool" where
  "ws_feed D [] = ([], False)"
| "ws_feed D (Tick now st sent # es) =
     (if sent then (case ws_feed D es of (out, fin) \<Rightarrow> (stats_json D now st # out, fin)) else ([], True))"
| "ws_feed D (Received m # es) =
     (case m of
        None \<Rightarrow> ([], True)
      | Some (Inl e) \<Rightarrow> ([], True)
      | Some (Inr WsClose) \<Rightarrow> ([], True)
      | Some (Inr (WsData d)) \<Rightarrow> ws_feed D es)"

text \<open>The service of an admin connection.\<close>

definition admin_service ::
  "('h, 'm) admin_lib \<Rightarrow> instant \<Rightarrow> ('h, 'b) request \<Rightarrow> 'm dashboard_state \<Rightarrow> ('h admin_response \<times> bool) option" where
  "admin_service D now rq st =
     (if rq_path rq = ''/ws'' \<and> hm_contains_key (ad_http D) (rq_headers rq) ''upgrade''
      then handle_dashboard_ws D rq st
      else map_option (\<lambda>r. (r, False)) (handle_admin D now rq st))"

text \<open>The state that \<open>main\<close> gives the admin endpoint, read at some moment.\<close>

definition server_dashboard ::
  "instant \<Rightarrow> string \<Rightarrow> ('s, 'env, 'k) server \<Rightarrow> (metrics \<times> 64 word \<times> (string \<rightharpoonup> int)) dashboard_state" where
  "server_dashboard started version s =
     \<lparr>dash_metrics = (w_metrics (sv_world s), sv_active_connections s, ck_gauge (sv_checker s)),
      dash_rate_limiter = map_option (\<lambda>k. w_limiters (sv_world s) ! k) (sv_shared_rl s),
      dash_started = started, dash_version = version, dash_admin_token = sv_admin_token s\<rparr>"

section \<open>Building responses\<close>

definition plain_header :: "string \<times> string \<Rightarrow> bool" where
  "plain_header kv = (fst kv \<noteq> [] \<and> list_all token_char (fst kv) \<and> list_all visible_char (snd kv))"

lemma built_response_Some:
  assumes "http_crate L" "list_all plain_header hs"
  shows "\<exists>r. built_response L status hs body = Some r \<and> rs_status r = status \<and> rs_body r = body"
proof -
  have "\<exists>h'. foldl (builder_header L) (Some h) hs = Some h'" for h
    using assms(2)
  proof (induction hs arbitrary: h)
    case (Cons kv hs)
    then show ?case
      using http_crate.builder_header_valid [OF assms(1), of "fst kv" "snd kv"] by (simp add: plain_header_def)
  qed simp
  then obtain h' where "foldl (builder_header L) (Some (hm_empty L)) hs = Some h'" by blast
  then show ?thesis by (simp add: built_response_def)
qed

lemma plain_headers:
  "plain_header (''Content-Type'', ''text/plain'')" "plain_header (''WWW-Authenticate'', ''Bearer'')"
  "plain_header (''Content-Type'', ''application/json'')" "plain_header (''Cache-Control'', ''no-cache'')"
  "plain_header (''Content-Type'', ''text/html; charset=utf-8'')"
  "plain_header (''Content-Type'', ''application/json; charset=utf-8'')"
  "plain_header (''Content-Type'', ''text/plain; version=0.0.4; charset=utf-8'')"
  "plain_header (''Content-Type'', ''text/plain; charset=utf-8'')"
  "plain_header (''connection'', ''Upgrade'')" "plain_header (''upgrade'', ''websocket'')"
  by code_simp+

lemma bearer_authorized:
  assumes "http_crate L" "list_all visible_char token"
    and "rq_headers rq = hm_insert L h ''authorization'' (''Bearer '' @ token)"
  shows "authorized L rq token"
proof -
  have "list_all visible_char (''Bearer '' @ token)"
    using assms(2) by (simp add: visible_char_def)
  then have "value_to_str L (''Bearer '' @ token) = Some (''Bearer '' @ token)"
    by (rule http_crate.to_str_visible [OF assms(1)])
  then show ?thesis
    by (simp add: authorized_def assms(3) http_crate.get_insert [OF assms(1)])
qed

lemma query_authorized:
  assumes "hm_get L (rq_headers rq) ''authorization'' = None" "CHR ''&'' \<notin> set token"
    and "rq_query rq = Some (''token='' @ token) \<or> rq_query rq = Some (''token='' @ token @ CHR ''&'' # q)"
  shows "authorized L rq token"
  using assms(3)
proof
  assume "rq_query rq = Some (''token='' @ token @ CHR ''&'' # q)"
  moreover have "split (CHR ''&'') (''token='' @ token @ CHR ''&'' # q) = (''token='' @ token) # split (CHR ''&'') q"
    using split_append [of "CHR ''&''" "''token='' @ token" q] assms(2) by simp
  ultimately show ?thesis using assms(1) by (simp add: authorized_def)
next
  assume "rq_query rq = Some (''token='' @ token)"
  moreover have "split (CHR ''&'') (''token='' @ token) = [''token='' @ token]"
    using assms(2) by (intro split_no_sep) simp
  ultimately show ?thesis using assms(1) by (simp add: authorized_def)
qed

lemma unauthorized_response:
  assumes "http_crate L" "token \<noteq> []" "\<not> authorized L rq token"
  shows "\<exists>r. (rs_status r = 401 \<or> (rq_path rq = ''/healthz'' \<and> rs_status r = 200 \<and> rs_body r = ''ok''))
             \<and> (\<forall>D now st. ad_http D = L \<longrightarrow> dash_admin_token st = Some token
                  \<longrightarrow> admin_service D now rq st = Some (r, False))"
proof -
  have "\<exists>r. built_response L 200 [(''Content-Type'', ''text/plain'')] ''ok'' = Some r \<and> rs_status r = 200 \<and> rs_body r = ''ok''"
    and "\<exists>r. built_response L 401 [(''WWW-Authenticate'', ''Bearer''), (''Content-Type'', ''application/json'')] unauthorized_body
           = Some r \<and> rs_status r = 401 \<and> rs_body r = unauthorized_body"
    and "\<exists>r. built_response L 401 [(''WWW-Authenticate'', ''Bearer'')] ''unauthorized'' = Some r
           \<and> rs_status r = 401 \<and> rs_body r = ''unauthorized''"
    by (rule built_response_Some [OF assms(1)]; simp add: plain_headers)+
  then show ?thesis
    using assms(2,3)
    by (cases "rq_path rq = ''/ws'' \<and> hm_contains_key L (rq_headers rq) ''upgrade''"; cases "rq_path rq = ''/healthz''")
      (auto simp: admin_service_def handle_admin_def handle_dashboard_ws_def refused_def Let_def)
qed

section \<open>Properties\<close>

text \<open>C21. Without the token the admin endpoint gives nothing away: when a non-empty token is configured
  and the request does not carry it, the answer is a 401 (or the constant answer of \<open>/healthz\<close>), no
  WebSocket feed is started, and the answer is the same whatever the metrics, the limiter, the clock or
  the page are.\<close>

theorem admin_requires_token:
  assumes "http_crate L" "token \<noteq> []" "\<not> authorized L rq token"
  shows "\<exists>r. (rs_status r = 401 \<or> (rq_path rq = ''/healthz'' \<and> rs_status r = 200 \<and> rs_body r = ''ok''))
             \<and> (\<forall>D now st. ad_http D = L \<longrightarrow> dash_admin_token st = Some token
                  \<longrightarrow> admin_service D now rq st = Some (r, False))"
  by (rule unauthorized_response [OF assms])


text \<open>C24. What \<open>/api/stats\<close> and the WebSocket feed send is a JSON text that reads back as the
  statistics: whatever the metrics' text holds, if it has no control character but newlines, the reader
  recovers the version, the uptime, the limiter's counters, the totals, and each status, method and
  upstream exactly once with its value, in the order the hash maps choose.\<close>

theorem stats_json_valid:
  assumes "hash_ok (ad_orders D)" "printable (dash_version st)"
    and "list_all (\<lambda>c. 32 \<le> (of_char c :: nat) \<or> c = newline) (gather D (dash_metrics st))"
  shows "\<exists>by_status by_method ups.
           parse_json (stats_json D now st)
             = Some (stats_tree (dash_version st) (duration_since now (dash_started st) div 10 ^ 9)
                       (case dash_rate_limiter st of Some rl \<Rightarrow> rl_allows rl | None \<Rightarrow> 0)
                       (case dash_rate_limiter st of Some rl \<Rightarrow> rl_rejects rl | None \<Rightarrow> 0)
                       (stats_of_text (gather D (dash_metrics st))) by_status by_method ups)
           \<and> mset by_status = mset (st_by_status (stats_of_text (gather D (dash_metrics st))))
           \<and> mset by_method = mset (st_by_method (stats_of_text (gather D (dash_metrics st))))
           \<and> mset ups = mset (st_upstreams (stats_of_text (gather D (dash_metrics st))))"
proof -
  let ?s = "stats_of_text (gather D (dash_metrics st))"
  let ?o = "ad_orders D"
  have keys: "keys_inv (\<lambda>c. 32 \<le> (of_char c :: nat)) ?s"
    by (rule stats_of_text_keys [OF assms(3)])
  have orders: "set (order_status ?o ks) = set ks" "set (order_method ?o ks) = set ks"
      "set (order_upstreams ?o ks) = set ks" for ks
    using assms(1) unfolding hash_ok_def by (metis set_mset_mset)+
  have "parse_json (stats_json D now st)
      = Some (stats_tree (dash_version st) (duration_since now (dash_started st) div 10 ^ 9)
                (case dash_rate_limiter st of Some rl \<Rightarrow> rl_allows rl | None \<Rightarrow> 0)
                (case dash_rate_limiter st of Some rl \<Rightarrow> rl_rejects rl | None \<Rightarrow> 0) ?s
                (iter_map (order_status ?o) (st_by_status ?s)) (iter_map (order_method ?o) (st_by_method ?s))
                (iter_map (order_upstreams ?o) (st_upstreams ?s)))"
    using keys orders assms(2)
    by (auto simp: stats_json_def keys_inv_def printable_def split: option.split intro!: stats_print_parses)
  moreover have "mset (iter_map (order_status ?o) (st_by_status ?s)) = mset (st_by_status ?s)"
    "mset (iter_map (order_method ?o) (st_by_method ?s)) = mset (st_by_method ?s)"
    "mset (iter_map (order_upstreams ?o) (st_upstreams ?s)) = mset (st_upstreams ?s)"
    using keys assms(1) by (simp_all add: iter_map_mset keys_inv_def hash_ok_def)
  ultimately show ?thesis by blast
qed

section \<open>Witnesses\<close>

definition admin_example :: "((string \<times> string) list, 'm) admin_lib" where
  "admin_example =
     \<lparr>ad_http = alist_http Map.empty, ad_encode = (\<lambda>_. exposition sample_lines), ad_html = ''page'',
      ad_orders = \<lparr>order_status = rev, order_method = (\<lambda>ks. ks), order_upstreams = (\<lambda>ks. ks)\<rparr>,
      ad_accept_key = (\<lambda>_. ''key'')\<rparr>"

definition dash_example :: "unit dashboard_state" where
  "dash_example =
     \<lparr>dash_metrics = (), dash_rate_limiter = None, dash_started = 0, dash_version = ''1.0'',
      dash_admin_token = Some ''secret''\<rparr>"

definition admin_rq :: "string \<Rightarrow> string option \<Rightarrow> ((string \<times> string) list, unit) request" where
  "admin_rq path query =
     \<lparr>rq_method = ''GET'', rq_path = path, rq_query = query, rq_version = HTTP_11, rq_headers = [], rq_body = ()\<rparr>"

lemma admin_example_http [simp]: "ad_http admin_example = alist_http Map.empty"
  by (simp add: admin_example_def)

lemma admin_example_gather [simp]: "gather admin_example m = exposition sample_lines"
proof -
  have "\<forall>c \<in> set (exposition sample_lines). (of_char c :: nat) < 128" by code_simp
  then show ?thesis by (simp add: gather_def admin_example_def utf8_valid_ascii)
qed

lemma admin_rq_unauthorized: "\<not> authorized (alist_http Map.empty) (admin_rq path (Some ''token=guess'')) ''secret''"
  by (simp add: authorized_def admin_rq_def alist_http_def)

theorem admin_requires_token_witness:
  "\<exists>r. rs_status r = 401 \<and> admin_service admin_example 0 (admin_rq ''/metrics'' (Some ''token=guess'')) dash_example = Some (r, False)"
proof -
  have "ad_http admin_example = alist_http Map.empty" "dash_admin_token dash_example = Some ''secret''"
    "rq_path (admin_rq ''/metrics'' (Some ''token=guess'')) \<noteq> ''/healthz''"
    by (simp_all add: admin_example_def dash_example_def admin_rq_def)
  with admin_requires_token [OF alist_http_crate _ admin_rq_unauthorized, of "''/metrics''"] show ?thesis
    by blast
qed


theorem stats_json_valid_witness:
  "\<exists>by_status by_method ups.
     parse_json (stats_json admin_example (5 * 10 ^ 9) dash_example)
       = Some (stats_tree ''1.0'' 5 0 0 (stats_of_text (exposition sample_lines)) by_status by_method ups)"
proof -
  have "hash_ok (ad_orders admin_example)" by (simp add: hash_ok_def admin_example_def)
  moreover have "list_all (\<lambda>c. 32 \<le> (of_char c :: nat) \<or> c = newline) (exposition sample_lines)"
    by code_simp
  moreover have "dash_version dash_example = ''1.0''" "dash_rate_limiter dash_example = None"
    "duration_since (5 * 10 ^ 9) (dash_started dash_example) div 10 ^ 9 = 5"
    by (simp_all add: dash_example_def admin_example_def duration_since_def)
  ultimately show ?thesis
    using stats_json_valid [of admin_example dash_example "5 * 10 ^ 9"] by auto
qed

end
