(* ===== verification/Spec2Isabelle.thy ===== *)
theory Spec2Isabelle
  imports Lifecycle Admission Traffic Inflight Health Pool LoadShed Dashboard
begin

text \<open>
  OxiGate is a layer 7 reverse proxy. A YAML file is validated and turned into a runtime; an accept loop
  and a dispatcher hand connections to tasks; each request of a connection passes admission (request
  limit, access list, rate limiter, router), has its body read under limits, and is forwarded with
  retries to an upstream that a balancer selects and a health checker watches. An admin endpoint serves
  metrics and statistics, and SIGHUP replaces the runtime. All paths below are under \<open>src/\<close>.

  \<^bold>\<open>Theories and code.\<close>
  \<^item> \<open>Prelude\<close>, \<open>Net\<close>, \<open>Time\<close>, \<open>Http\<close>: the standard library as far as it is used (\<open>str\<close>, integers at
    their width, IP addresses with parsing and printing, \<open>Duration\<close>, \<open>Instant\<close>, binary64 with exact
    rounding) and the interface of the \<open>http\<close> crate as the locale \<open>http_crate\<close>, interpreted on
    association lists.
  \<^item> \<open>Config\<close>: \<open>config/mod.rs\<close> and \<open>config/validator.rs\<close>. One error constructor per message;
    \<open>valid_config\<close> is what an accepted configuration satisfies.
  \<^item> \<open>Security\<close>: \<open>security.rs\<close>. CIDR membership by masks on words equals prefix comparison; the list is
    deny over allow; a validated list always parses.
  \<^item> \<open>RateLimit\<close>: \<open>ratelimit.rs\<close>. The bound on a window, the exact burst, conforming clients, and
    transparency of \<open>cleanup\<close>.
  \<^item> \<open>LoadBalancer\<close>, \<open>Router\<close>: \<open>lb/*.rs\<close> and \<open>router.rs\<close>. Each algorithm's contract and fairness with
    wrapping counters; longest prefix by whole segments. Balancers live in a store, an \<open>Arc\<close> is an index.
  \<^item> \<open>Health\<close>: \<open>health/mod.rs\<close>. One round of the loop and the hysteresis over any number of rounds.
  \<^item> \<open>Metrics\<close>: \<open>metrics/mod.rs\<close>. Collectors, their registration and values.
  \<^item> \<open>BodyLimit\<close>, \<open>Handler\<close>: \<open>proxy/body_limit.rs\<close> and \<open>proxy/handler.rs\<close>. The body adapters as poll
    functions over any body; the whole request handler over a record \<open>world\<close> of shared state, in which an
    await returns whatever world the other tasks leave behind.
  \<^item> \<open>Task\<close>: the same handler cut at its awaits, so that other tasks may run there. What a task waits for is
    a value of \<open>rq_state\<close>, the code up to the next await one operation. Driven to its end by an
    environment it computes what \<open>Handler\<close> computes; the locale \<open>task_frame\<close> says what it leaves alone.
  \<^item> \<open>ProxyProtocol\<close>: \<open>proxy_protocol.rs\<close>. Both versions on streams that deliver arbitrary chunks, refined
    to a function on bytes; round trips, bounds, and both halves of \<open>PrefixedStream\<close>.
  \<^item> \<open>Runtime\<close>: \<open>proxy/client.rs\<close>, \<open>tls.rs\<close>, \<open>state.rs\<close> and \<open>Runtime::from_config\<close> of \<open>main.rs\<close>.
  \<^item> \<open>Steps\<close>: labelled step relations, their executions, invariants and variants; the locale
    \<open>step_system\<close> is interpreted on the server and on the load shedder.
  \<^item> \<open>Server\<close>: the rest of \<open>main.rs\<close> as the step relation \<open>server_step\<close>, one rule per atomic step of the
    accept loop, the dispatcher, a connection task (set-up, handshake, end), a request (start, resumption
    after an await, answer, drop), the health checker
    (start of a round, one probe), the admin listener, reload, shutdown and the end of the process, and
    one for the passing of time; \<open>run\<close> is reachability from \<open>start_server\<close>. Capacity, conservation of
    connections, atomicity of reload and what a session enforces are invariants by rule induction; the
    locale \<open>context_inv\<close> carries what holds of a new runtime over to every context in use.
  \<^item> \<open>Lifecycle\<close>: a shutdown completes and its remaining work is bounded by a measure; the grace period,
    an execution that skips it, and the admin listener that does not recover.
  \<^item> \<open>Admission\<close>: every request that is past admission was let through at its start, by the locale
    \<open>task_inv\<close> of \<open>Server\<close>, which carries what holds at the start of a task through its awaits.
  \<^item> \<open>Traffic\<close>: the rate limit for the whole server, over the interleaved steps of all tasks that share a
    limiter, down to the rate and burst of a validated configuration.
  \<^item> \<open>Inflight\<close>: the requests on their way. The server refines a ledger of tasks, connection counters and
    permits, whose books balance: the request limit holds across all connections, and a counter is the
    number of requests at its upstream and of those that were dropped there.
  \<^item> \<open>Json\<close>, \<open>Stats\<close>, \<open>Dashboard\<close>: \<open>dashboard.rs\<close> and the dispatch of \<open>run_admin_server\<close>. \<open>Json\<close> is a
    reference reader; the statistics are shown to be the sums of the samples and their text to read back.
  \<^item> \<open>Pool\<close>, \<open>LoadShed\<close>: \<open>pool.rs\<close> over the locale \<open>bounded_queue\<close>, and \<open>middleware/load_shed.rs\<close> as
    interleaved atomic steps. \<open>main\<close> creates both but uses neither on a request.
  \<^item> This theory: properties of the composition, from the configuration file to the response.

  \<^bold>\<open>Conventions.\<close> Errors are values (\<open>Inl\<close>), a panic is \<open>None\<close>, arithmetic wraps as in the release
  profile. Code outside the repository is an argument, with what it documents as a locale or a named
  hypothesis. Functions of the sources are total here: the loops of the PROXY reader end by a measure on
  the bytes still wanted, the retry loop by the number of attempts left. The only fuel is that of the
  reference JSON reader, the length of its text, which bounds its depth, and the number of polls in
  \<open>collect_run\<close> and of reads in \<open>read_to_end\<close>, for which the properties give a sufficient number.

  \<^bold>\<open>Not modelled.\<close> Logging and tracing; HTTP and TLS framing (\<open>hyper\<close>, \<open>rustls\<close>); the command line and
  signal registration; the bytes of an upgraded tunnel after it was opened; the dashboard's page and
  browser script (a text to the server); deserialisation of YAML (\<open>serde\<close>); the poisoning of locks;
  the moment at which the lifetime timeout of a connection fires (the step \<open>finish\<close> can end a session
  at any time, and \<open>cancel\<close> a request).
\<close>

section \<open>Properties that span components\<close>



section \<open>Witnesses\<close>



end
